theory Spec2Isabelle
  imports Main "HOL-Library.Word"
begin

section \<open>The DMAP codec of pydarn (pydmap/io.py)\<close>

text \<open>
  A shallow embedding of the classes \<open>DmapRead\<close> and \<open>DmapWrite\<close>. The byte buffer
  is a list of 8-bit words, the cursor and every length are Python integers (\<open>int\<close>).
  Every exception the code can raise is a value of \<open>error\<close>; the exceptions of
  \<open>pydmap_exceptions\<close> keep their names, the built-in exceptions of Python, of
  \<open>struct\<close> and of \<open>numpy\<close> theirs.
\<close>

subsection \<open>Values and errors\<close>

type_synonym byte = "8 word"

text \<open>A Python \<open>str\<close> is the list of its code points.\<close>

type_synonym pystr = "nat list"

datatype error =
    EmptyFileError
  | CursorError
  | DmapDataError
  | DmapDataTypeError
  | ZeroByteError
  | NegativeByteError
  | MismatchByteError
  | DmapTypeError
  | SuperDARNFieldMissing "pystr set"
  | SuperDARNFieldExtra "pystr set"
  | SuperDARNDataFormatError "pystr set"
  | IndexError
  | KeyError
  | AttributeError
  | TypeError
  | ValueError
  | StructError
  | UnicodeDecodeError
  | UnicodeEncodeError
  | Unmodelled

text \<open>
  A value read by \<open>struct\<close>: an integer, a text, or a floating-point number. A Python
  \<open>float\<close> is an IEEE-754 binary64 number, held here by its 64 bits. \<open>Unmodelled\<close>
  stands for what the model does not cover (a format string outside the registry, the
  text of a number); no exception of the code is mapped to it.
\<close>

datatype pyval = PInt int | PFloat "64 word" | PStr pystr

text \<open>A numpy array is its element type and its C-order element buffer.\<close>

datatype dtype = DNum string | DUnicode nat

record ndarray =
  nd_dtype :: dtype
  nd_bytes :: "byte list"

text \<open>
  \<open>DmapScalar(name, value, data_type, data_type_fmt)\<close> and
  \<open>DmapArray(name, value, data_type, data_type_fmt, dimension, shape)\<close>, the two named
  tuples the codec builds and consumes.
\<close>

record DmapScalar =
  s_name :: pystr
  s_value :: pyval
  s_data_type :: int
  s_data_type_fmt :: string

record DmapArray =
  a_name :: pystr
  a_value :: ndarray
  a_data_type :: int
  a_data_type_fmt :: string
  a_dimension :: int
  a_shape :: "int list"

datatype field = Scalar DmapScalar | Array DmapArray | NotDmap

text \<open>A record is an ordered dictionary from field name to field.\<close>

type_synonym dmap_record = "(pystr \<times> field) list"

fun odict_set :: "('k \<times> 'v) list \<Rightarrow> 'k \<Rightarrow> 'v \<Rightarrow> ('k \<times> 'v) list" where
  "odict_set [] k v = [(k, v)]"
| "odict_set (p # ps) k v = (if fst p = k then (k, v) # ps else p # odict_set ps k v)"

definition py_str :: "string \<Rightarrow> pystr" where
  "py_str s = map of_char s"

subsection \<open>The type registry\<close>

definition DMAP :: int where "DMAP = 0"
definition CHAR_code :: int where "CHAR_code = 1"
definition SHORT :: int where "SHORT = 2"
definition INT_code :: int where "INT_code = 3"
definition FLOAT :: int where "FLOAT = 4"
definition DOUBLE :: int where "DOUBLE = 8"
definition STRING :: int where "STRING = 9"
definition LONG :: int where "LONG = 10"
definition UCHAR :: int where "UCHAR = 16"
definition USHORT :: int where "USHORT = 17"
definition UINT :: int where "UINT = 18"
definition ULONG :: int where "ULONG = 19"

definition DMAP_DATA_TYPES :: "int \<Rightarrow> (string \<times> int) option" where
  "DMAP_DATA_TYPES t =
     (if t = DMAP then Some ('''', 0)
      else if t = CHAR_code then Some (''c'', 1)
      else if t = SHORT then Some (''h'', 2)
      else if t = INT_code then Some (''i'', 4)
      else if t = FLOAT then Some (''f'', 4)
      else if t = DOUBLE then Some (''d'', 8)
      else if t = STRING then Some (''s'', 1)
      else if t = LONG then Some (''q'', 8)
      else if t = UCHAR then Some (''B'', 1)
      else if t = USHORT then Some (''H'', 2)
      else if t = UINT then Some (''I'', 4)
      else if t = ULONG then Some (''Q'', 8)
      else None)"

subsection \<open>Python's \<open>struct\<close>, \<open>bytearray\<close>, UTF-8 and \<open>numpy\<close>\<close>

text \<open>Indexing a \<open>bytearray\<close>: a negative index counts from the end.\<close>

definition py_getitem :: "'a list \<Rightarrow> int \<Rightarrow> 'a option" where
  "py_getitem xs i =
     (if 0 \<le> i \<and> i < int (length xs) then Some (xs ! nat i)
      else if i < 0 \<and> 0 \<le> int (length xs) + i then Some (xs ! nat (int (length xs) + i))
      else None)"

text \<open>Integers are laid out little-endian, in two's complement when signed.\<close>

fun le_bytes :: "nat \<Rightarrow> int \<Rightarrow> byte list" where
  "le_bytes 0 v = []"
| "le_bytes (Suc n) v = word_of_int v # le_bytes n (v div 256)"

fun le_val :: "byte list \<Rightarrow> int" where
  "le_val [] = 0"
| "le_val (b # bs) = uint b + 256 * le_val bs"

definition le_signed :: "byte list \<Rightarrow> int" where
  "le_signed bs =
     (let u = le_val bs
      in if 2 * u \<ge> 256 ^ length bs then u - 256 ^ length bs else u)"

text \<open>The integer formats of \<open>struct\<close>: size in bytes and signedness.\<close>

definition struct_int_fmt :: "string \<Rightarrow> (nat \<times> bool) option" where
  "struct_int_fmt fmt =
     (if fmt = ''h'' then Some (2, True)
      else if fmt = ''i'' then Some (4, True)
      else if fmt = ''q'' then Some (8, True)
      else if fmt = ''B'' then Some (1, False)
      else if fmt = ''H'' then Some (2, False)
      else if fmt = ''I'' then Some (4, False)
      else if fmt = ''Q'' then Some (8, False)
      else None)"

definition struct_float_fmt :: "string \<Rightarrow> nat option" where
  "struct_float_fmt fmt =
     (if fmt = ''f'' then Some 4 else if fmt = ''d'' then Some 8 else None)"

text \<open>
  \<open>struct.calcsize\<close> on the formats of the registry (the empty format has size 0);
  other format strings are outside the model.
\<close>

definition struct_calcsize :: "string \<Rightarrow> nat option" where
  "struct_calcsize fmt =
     (if fmt = '''' then Some 0
      else case struct_int_fmt fmt of
        Some (n, _) \<Rightarrow> Some n
      | None \<Rightarrow> struct_float_fmt fmt)"

text \<open>
  The floating-point formats of \<open>struct\<close> in native mode, on the bits of the numbers.
  Format \<open>d\<close> writes the 64 bits of the number. Format \<open>f\<close> writes the binary32 number
  nearest to it (ties to even), which is an infinity when the number is too large for
  binary32, and reads back the binary64 number equal to the binary32 number read. A NaN
  keeps its sign and the leading bits of its payload and is made quiet. An integer
  packed under a floating-point format is first converted to the nearest binary64 number
  (\<open>PyFloat_AsDouble\<close>), which fails when the integer is too large for binary64.
\<close>

function bit_length :: "int \<Rightarrow> nat" where
  "bit_length n = (if n \<le> 0 then 0 else Suc (bit_length (n div 2)))"
  by pat_completeness auto

termination
  by (relation "measure nat") auto

declare bit_length.simps [simp del]

text \<open>\<open>round_shift m d\<close> is \<open>m / 2 ^ d\<close> rounded to the nearest integer, ties to even.\<close>

definition round_shift :: "int \<Rightarrow> nat \<Rightarrow> int" where
  "round_shift m d =
     (if d = 0 then m
      else let q = m div 2 ^ d; r = m mod 2 ^ d; h = 2 ^ (d - 1)
           in if r > h \<or> (r = h \<and> odd q) then q + 1 else q)"

definition float64_to_float32 :: "int \<Rightarrow> int" where
  "float64_to_float32 b =
     (let s = b div 2 ^ 63; e = (b div 2 ^ 52) mod 2048; m = b mod 2 ^ 52
      in if e = 2047 then
           s * 2 ^ 31 + 255 * 2 ^ 23
             + (if m = 0 then 0 else 2 ^ 22 + (m div 2 ^ 29) mod 2 ^ 22)
         else if e = 0 \<and> m = 0 then s * 2 ^ 31
         else
           let significand = (if e = 0 then m else m + 2 ^ 52);
               p = (if e = 0 then 1 else e) - 1075;
               x = int (bit_length significand) - 1 + p;
               q = (if x \<ge> - 126 then x - 23 else - 149);
               r = round_shift significand (nat (q - p));
               bits = (q + 149) * 2 ^ 23 + r
           in s * 2 ^ 31 + min bits (255 * 2 ^ 23))"

definition float32_to_float64 :: "int \<Rightarrow> int" where
  "float32_to_float64 b =
     (let s = b div 2 ^ 31; e = (b div 2 ^ 23) mod 256; m = b mod 2 ^ 23
      in if e = 255 then
           s * 2 ^ 63 + 2047 * 2 ^ 52 + (if m = 0 then 0 else 2 ^ 51 + (m mod 2 ^ 22) * 2 ^ 29)
         else if e = 0 then
           (if m = 0 then s * 2 ^ 63
            else let k = bit_length m
                 in s * 2 ^ 63 + (int k + 872) * 2 ^ 52 + m * 2 ^ (53 - k))
         else s * 2 ^ 63 + (e + 896) * 2 ^ 52 + m * 2 ^ 29)"

definition int_to_float64 :: "int \<Rightarrow> int option" where
  "int_to_float64 x =
     (if x = 0 then Some 0
      else
        let s = (if x < 0 then 1 else 0);
            a = \<bar>x\<bar>;
            n = bit_length a;
            r = (if n \<le> 53 then a * 2 ^ (53 - n) else round_shift a (n - 53));
            bits = (int n + 1021) * 2 ^ 52 + r
        in if bits \<ge> 2047 * 2 ^ 52 then None else Some (s * 2 ^ 63 + bits))"

definition PyFloat_AsDouble :: "pyval \<Rightarrow> int option" where
  "PyFloat_AsDouble v =
     (case v of
        PFloat x \<Rightarrow> Some (uint x)
      | PInt i \<Rightarrow> int_to_float64 i
      | PStr t \<Rightarrow> None)"

text \<open>
  The bytes \<open>struct.unpack_from\<close> reads: \<open>sz\<close> bytes at \<open>offset\<close>, a negative offset
  counting from the end of the buffer; \<open>struct.error\<close> when they are not all there.
\<close>

definition buffer_at :: "byte list \<Rightarrow> int \<Rightarrow> nat \<Rightarrow> error + byte list" where
  "buffer_at buf offset sz =
     (let n = int (length buf)
      in if offset < 0 \<and> offset + n < 0 then Inl StructError
         else let off = (if offset < 0 then offset + n else offset)
              in if n - off < int sz then Inl StructError
                 else Inr (take sz (drop (nat off) buf)))"

definition struct_decode :: "string \<Rightarrow> byte list \<Rightarrow> pyval list" where
  "struct_decode fmt bs =
     (if fmt = '''' then []
      else case struct_int_fmt fmt of
        Some (_, is_signed) \<Rightarrow> [PInt (if is_signed then le_signed bs else le_val bs)]
      | None \<Rightarrow>
          if fmt = ''f'' then [PFloat (word_of_int (float32_to_float64 (le_val bs)))]
          else [PFloat (word_of_int (le_val bs))])"

definition struct_unpack_from :: "string \<Rightarrow> byte list \<Rightarrow> int \<Rightarrow> error + pyval list" where
  "struct_unpack_from fmt buf offset =
     (case struct_calcsize fmt of
        None \<Rightarrow> Inl Unmodelled
      | Some n \<Rightarrow>
          (case buffer_at buf offset n of
             Inl e \<Rightarrow> Inl e
           | Inr bs \<Rightarrow> Inr (struct_decode fmt bs)))"

text \<open>
  \<open>bytes.decode('utf-8')\<close>: the strict decoder, which refuses overlong forms,
  surrogates and code points above U+10FFFF. Bytes are given by their values.
\<close>

definition utf8_cont :: "nat \<Rightarrow> bool" where
  "utf8_cont b = (128 \<le> b \<and> b \<le> 191)"

fun utf8_decode :: "nat list \<Rightarrow> pystr option" where
  "utf8_decode [] = Some []"
| "utf8_decode (b0 # bs) =
     (if b0 < 128 then map_option ((#) b0) (utf8_decode bs)
      else if 194 \<le> b0 \<and> b0 \<le> 223 then
        (case bs of
           b1 # r \<Rightarrow>
             if utf8_cont b1
             then map_option ((#) ((b0 - 192) * 64 + (b1 - 128))) (utf8_decode r)
             else None
         | _ \<Rightarrow> None)
      else if 224 \<le> b0 \<and> b0 \<le> 239 then
        (case bs of
           b1 # b2 # r \<Rightarrow>
             if utf8_cont b1 \<and> utf8_cont b2
                \<and> (b0 = 224 \<longrightarrow> 160 \<le> b1) \<and> (b0 = 237 \<longrightarrow> b1 \<le> 159)
             then map_option
                    ((#) ((b0 - 224) * 4096 + (b1 - 128) * 64 + (b2 - 128)))
                    (utf8_decode r)
             else None
         | _ \<Rightarrow> None)
      else if 240 \<le> b0 \<and> b0 \<le> 244 then
        (case bs of
           b1 # b2 # b3 # r \<Rightarrow>
             if utf8_cont b1 \<and> utf8_cont b2 \<and> utf8_cont b3
                \<and> (b0 = 240 \<longrightarrow> 144 \<le> b1) \<and> (b0 = 244 \<longrightarrow> b1 \<le> 143)
             then map_option
                    ((#) ((b0 - 240) * 262144 + (b1 - 128) * 4096
                          + (b2 - 128) * 64 + (b3 - 128)))
                    (utf8_decode r)
             else None
         | _ \<Rightarrow> None)
      else None)"

text \<open>
  \<open>str.encode('utf-8')\<close>, code point by code point; a surrogate cannot be encoded
  (\<open>UnicodeEncodeError\<close>).
\<close>

definition utf8_encode_cp :: "nat \<Rightarrow> byte list option" where
  "utf8_encode_cp cp =
     (if cp < 128 then Some [of_nat cp]
      else if cp < 2048 then Some [of_nat (192 + cp div 64), of_nat (128 + cp mod 64)]
      else if 55296 \<le> cp \<and> cp \<le> 57343 then None
      else if cp < 65536 then
        Some [of_nat (224 + cp div 4096), of_nat (128 + (cp div 64) mod 64),
              of_nat (128 + cp mod 64)]
      else if cp < 1114112 then
        Some [of_nat (240 + cp div 262144), of_nat (128 + (cp div 4096) mod 64),
              of_nat (128 + (cp div 64) mod 64), of_nat (128 + cp mod 64)]
      else None)"

fun utf8_encode :: "pystr \<Rightarrow> byte list option" where
  "utf8_encode [] = Some []"
| "utf8_encode (cp # s) =
     (case utf8_encode_cp cp of
        None \<Rightarrow> None
      | Some bs \<Rightarrow> map_option ((@) bs) (utf8_encode s))"

text \<open>
  Element sizes of the numpy element types the reader asks for; \<open>np.frombuffer\<close>
  with a negative count takes all that is left of the buffer.
\<close>

definition np_itemsize :: "string \<Rightarrow> nat option" where
  "np_itemsize fmt =
     (case struct_int_fmt fmt of
        Some (n, _) \<Rightarrow> Some n
      | None \<Rightarrow> struct_float_fmt fmt)"

definition np_frombuffer :: "byte list \<Rightarrow> string \<Rightarrow> int \<Rightarrow> int \<Rightarrow> error + ndarray" where
  "np_frombuffer buf fmt count offset =
     (let ts = int (length buf)
      in if offset < 0 \<or> offset > ts then Inl ValueError
         else case np_itemsize fmt of
           None \<Rightarrow> Inl Unmodelled
         | Some itemsize \<Rightarrow>
             let s = ts - offset
             in if count < 0 then
                  (if s mod int itemsize \<noteq> 0 then Inl ValueError
                   else Inr \<lparr>nd_dtype = DNum fmt, nd_bytes = drop (nat offset) buf\<rparr>)
                else if s < count * int itemsize then Inl ValueError
                else Inr \<lparr>nd_dtype = DNum fmt,
                          nd_bytes = take (nat count * itemsize) (drop (nat offset) buf)\<rparr>)"

text \<open>
  \<open>np.array\<close> of a Python list: 64-bit integers for a list of integers, fixed-width
  UTF-32 text for a list of texts, and an empty array of doubles for the empty list.
\<close>

fun pyints :: "pyval list \<Rightarrow> int list option" where
  "pyints [] = Some []"
| "pyints (PInt n # vs) = map_option ((#) n) (pyints vs)"
| "pyints (_ # vs) = None"

fun pystrs :: "pyval list \<Rightarrow> pystr list option" where
  "pystrs [] = Some []"
| "pystrs (PStr t # vs) = map_option ((#) t) (pystrs vs)"
| "pystrs (_ # vs) = None"

definition utf32_padded :: "nat \<Rightarrow> pystr \<Rightarrow> byte list" where
  "utf32_padded n t = concat (map (\<lambda>cp. le_bytes 4 (int cp)) (t @ replicate (n - length t) 0))"

definition np_array :: "pyval list \<Rightarrow> error + ndarray" where
  "np_array data =
     (if data = [] then Inr \<lparr>nd_dtype = DNum ''d'', nd_bytes = []\<rparr>
      else case pyints data of
        Some ns \<Rightarrow>
          if list_all (\<lambda>n. - (2 ^ 63) \<le> n \<and> n < 2 ^ 63) ns
          then Inr \<lparr>nd_dtype = DNum ''q'', nd_bytes = concat (map (le_bytes 8) ns)\<rparr>
          else Inl Unmodelled
      | None \<Rightarrow>
          (case pystrs data of
             Some ts \<Rightarrow>
               let n = max 1 (fold max (map length ts) 0)
               in Inr \<lparr>nd_dtype = DUnicode n, nd_bytes = concat (map (utf32_padded n) ts)\<rparr>
           | None \<Rightarrow> Inl Unmodelled))"

subsection \<open>DmapRead\<close>

definition zero_negative_check :: "int \<Rightarrow> error option" where
  "zero_negative_check element =
     (if element = 0 then Some ZeroByteError
      else if element < 0 then Some NegativeByteError
      else None)"

definition bytes_check :: "int \<Rightarrow> int \<Rightarrow> error option" where
  "bytes_check element byte_check =
     (if element > byte_check then Some MismatchByteError else None)"

definition check_data_type :: "int \<Rightarrow> error option" where
  "check_data_type data_type =
     (if DMAP_DATA_TYPES data_type = None then Some DmapDataTypeError else None)"

text \<open>
  The loop of \<open>read_data\<close> that looks for the NUL ending a text. Indexing the
  \<open>bytearray\<close> past its end raises \<open>IndexError\<close>, which is how the loop ends when
  there is no NUL; the second operand of its \<open>or\<close> is evaluated only for a byte that is 0.
\<close>

lemma py_getitem_less: "py_getitem xs i = Some x \<Longrightarrow> i < int (length xs)"
  by (auto simp: py_getitem_def split: if_splits)

function scan_nul :: "byte list \<Rightarrow> int \<Rightarrow> int \<Rightarrow> error + int" where
  "scan_nul buf cursor byte_counter =
     (case py_getitem buf (cursor + byte_counter) of
        None \<Rightarrow> Inl IndexError
      | Some b \<Rightarrow>
          if b \<noteq> 0 \<or> cursor + byte_counter \<ge> int (length buf)
          then scan_nul buf cursor (byte_counter + 1)
          else Inr byte_counter)"
  by pat_completeness auto
termination
  by (relation "measure (\<lambda>(buf, cursor, k). nat (int (length buf) - (cursor + k)))")
     (auto dest: py_getitem_less)

declare scan_nul.simps [simp del]

definition read_data :: "byte list \<Rightarrow> string \<Rightarrow> int \<Rightarrow> int \<Rightarrow> error + (pyval \<times> int)" where
  "read_data buf data_type_fmt data_fmt_bytes cursor =
     (let dmap_end_bytes = int (length buf)
      in if cursor \<ge> dmap_end_bytes then Inl CursorError
         else if dmap_end_bytes - cursor < data_fmt_bytes then Inl CursorError
         else if data_type_fmt = ''c'' then
           (case py_getitem buf cursor of
              None \<Rightarrow> Inl IndexError
            | Some b \<Rightarrow> Inr (PInt (uint b), cursor + data_fmt_bytes))
         else if data_type_fmt = ''s'' then
           (case scan_nul buf cursor 0 of
              Inl e \<Rightarrow> Inl e
            | Inr byte_counter \<Rightarrow>
                (case bytes_check (cursor + byte_counter) dmap_end_bytes of
                   Some e \<Rightarrow> Inl e
                 | None \<Rightarrow>
                     (case buffer_at buf cursor (nat byte_counter) of
                        Inl e \<Rightarrow> Inl e
                      | Inr bs \<Rightarrow>
                          (case utf8_decode (map unat bs) of
                             None \<Rightarrow> Inl UnicodeDecodeError
                           | Some t \<Rightarrow> Inr (PStr t, cursor + byte_counter + 1)))))
         else
           (case struct_unpack_from data_type_fmt buf cursor of
              Inl e \<Rightarrow> Inl e
            | Inr [] \<Rightarrow> Inl IndexError
            | Inr (v # _) \<Rightarrow> Inr (v, cursor + data_fmt_bytes)))"

text \<open>The three uses of \<open>read_data\<close> whose result the reader takes as a text or an integer.\<close>

definition read_name :: "byte list \<Rightarrow> int \<Rightarrow> error + (pystr \<times> int)" where
  "read_name buf cursor =
     (case read_data buf ''s'' 1 cursor of
        Inl e \<Rightarrow> Inl e
      | Inr (PStr t, c) \<Rightarrow> Inr (t, c)
      | Inr (_, c) \<Rightarrow> Inl TypeError)"

definition read_type :: "byte list \<Rightarrow> int \<Rightarrow> error + (int \<times> int)" where
  "read_type buf cursor =
     (case read_data buf ''c'' 1 cursor of
        Inl e \<Rightarrow> Inl e
      | Inr (PInt n, c) \<Rightarrow> Inr (n, c)
      | Inr (_, c) \<Rightarrow> Inl TypeError)"

definition read_int :: "byte list \<Rightarrow> int \<Rightarrow> error + (int \<times> int)" where
  "read_int buf cursor =
     (case read_data buf ''i'' 4 cursor of
        Inl e \<Rightarrow> Inl e
      | Inr (PInt n, c) \<Rightarrow> Inr (n, c)
      | Inr (_, c) \<Rightarrow> Inl TypeError)"

text \<open>
  \<open>read_scalar\<close>. The test \<open>scalar_type_fmt != DMAP\<close> compares the format, a text,
  with the integer 0: in Python a text never equals an integer.
\<close>

definition read_scalar :: "byte list \<Rightarrow> int \<Rightarrow> error + (DmapScalar \<times> int)" where
  "read_scalar buf cursor =
     (case read_name buf cursor of
        Inl e \<Rightarrow> Inl e
      | Inr (scalar_name, c1) \<Rightarrow>
     (case read_type buf c1 of
        Inl e \<Rightarrow> Inl e
      | Inr (scalar_type, c2) \<Rightarrow>
     (case check_data_type scalar_type of
        Some e \<Rightarrow> Inl e
      | None \<Rightarrow>
     (case DMAP_DATA_TYPES scalar_type of
        None \<Rightarrow> Inl KeyError
      | Some (scalar_type_fmt, scalar_fmt_byte) \<Rightarrow>
          if PStr (py_str scalar_type_fmt) \<noteq> PInt DMAP then
            (case read_data buf scalar_type_fmt scalar_fmt_byte c2 of
               Inl e \<Rightarrow> Inl e
             | Inr (scalar_value, c3) \<Rightarrow>
                 Inr (\<lparr>s_name = scalar_name, s_value = scalar_value,
                       s_data_type = scalar_type, s_data_type_fmt = scalar_type_fmt\<rparr>, c3))
          else Inl DmapDataError))))"

text \<open>The list comprehension reading the dimensions, and the two loops of \<open>read_string_array\<close>.\<close>

fun read_shape :: "byte list \<Rightarrow> nat \<Rightarrow> int \<Rightarrow> error + (int list \<times> int)" where
  "read_shape buf 0 cursor = Inr ([], cursor)"
| "read_shape buf (Suc n) cursor =
     (case read_int buf cursor of
        Inl e \<Rightarrow> Inl e
      | Inr (d, c) \<Rightarrow>
          (case read_shape buf n c of
             Inl e \<Rightarrow> Inl e
           | Inr (ds, c') \<Rightarrow> Inr (d # ds, c')))"

fun read_string_items ::
  "byte list \<Rightarrow> string \<Rightarrow> int \<Rightarrow> nat \<Rightarrow> pyval list \<Rightarrow> int \<Rightarrow> error + (pyval list \<times> int)" where
  "read_string_items buf fmt nbytes 0 data cursor = Inr (data, cursor)"
| "read_string_items buf fmt nbytes (Suc n) data cursor =
     (case read_data buf fmt nbytes cursor of
        Inl e \<Rightarrow> Inl e
      | Inr (v, c) \<Rightarrow> read_string_items buf fmt nbytes n (data @ [v]) c)"

fun read_string_dims ::
  "byte list \<Rightarrow> string \<Rightarrow> int \<Rightarrow> int list \<Rightarrow> pyval list \<Rightarrow> int \<Rightarrow> error + (pyval list \<times> int)" where
  "read_string_dims buf fmt nbytes [] data cursor = Inr (data, cursor)"
| "read_string_dims buf fmt nbytes (dim_size # shape) data cursor =
     (case read_string_items buf fmt nbytes (nat dim_size) data cursor of
        Inl e \<Rightarrow> Inl e
      | Inr (data', c) \<Rightarrow> read_string_dims buf fmt nbytes shape data' c)"

definition read_string_array ::
  "byte list \<Rightarrow> int list \<Rightarrow> string \<Rightarrow> int \<Rightarrow> int \<Rightarrow> error + (ndarray \<times> int)" where
  "read_string_array buf shape array_type_fmt array_fmt_bytes cursor =
     (case read_string_dims buf array_type_fmt array_fmt_bytes shape [] cursor of
        Inl e \<Rightarrow> Inl e
      | Inr (data, c) \<Rightarrow>
          (case np_array data of
             Inl e \<Rightarrow> Inl e
           | Inr arr \<Rightarrow> Inr (arr, c)))"

definition read_numerical_array ::
  "byte list \<Rightarrow> string \<Rightarrow> int \<Rightarrow> int \<Rightarrow> int \<Rightarrow> error + (ndarray \<times> int)" where
  "read_numerical_array buf data_type_fmt total_number_cells data_fmt_bytes cursor =
     (case np_frombuffer buf data_type_fmt total_number_cells cursor of
        Inl e \<Rightarrow> Inl e
      | Inr arr \<Rightarrow> Inr (arr, cursor + total_number_cells * data_fmt_bytes))"

text \<open>
  \<open>read_array\<close>. Building the message of the error for a dimension \<open>\<le> 0\<close> formats
  the field \<open>{shape}\<close> with no argument of that name, which raises \<open>KeyError\<close> before
  the \<open>DmapDataError\<close> is constructed.
\<close>

definition read_array :: "byte list \<Rightarrow> int \<Rightarrow> int \<Rightarrow> error + (DmapArray \<times> int)" where
  "read_array buf record_size cursor =
     (case read_name buf cursor of
        Inl e \<Rightarrow> Inl e
      | Inr (array_name, c1) \<Rightarrow>
     (case read_type buf c1 of
        Inl e \<Rightarrow> Inl e
      | Inr (array_type, c2) \<Rightarrow>
     (case check_data_type array_type of
        Some e \<Rightarrow> Inl e
      | None \<Rightarrow>
     (case DMAP_DATA_TYPES array_type of
        None \<Rightarrow> Inl KeyError
      | Some (array_type_fmt, array_fmt_bytes) \<Rightarrow>
     (case read_int buf c2 of
        Inl e \<Rightarrow> Inl e
      | Inr (array_dimension, c3) \<Rightarrow>
     (case bytes_check array_dimension record_size of
        Some e \<Rightarrow> Inl e
      | None \<Rightarrow>
     (case zero_negative_check array_dimension of
        Some e \<Rightarrow> Inl e
      | None \<Rightarrow>
     (case read_shape buf (nat array_dimension) c3 of
        Inl e \<Rightarrow> Inl e
      | Inr (wire_shape, c4) \<Rightarrow>
          let array_shape = rev wire_shape
          in if int (length array_shape) \<noteq> array_dimension then Inl DmapDataError
             else if (\<exists>x \<in> set array_shape. x \<le> 0) \<and> array_name \<noteq> py_str ''slist''
               then Inl KeyError
             else if (\<exists>x \<in> set array_shape. x \<ge> record_size) then Inl DmapDataError
             else
               (let total_num_cells = prod_list array_shape;
                    total_num_cells_bytes = total_num_cells * array_fmt_bytes
                in
     (case bytes_check total_num_cells record_size of
        Some e \<Rightarrow> Inl e
      | None \<Rightarrow>
     (case bytes_check total_num_cells_bytes record_size of
        Some e \<Rightarrow> Inl e
      | None \<Rightarrow>
          if array_type_fmt = ''s'' \<or> array_type_fmt = ''c'' then
            (case read_string_array buf array_shape array_type_fmt array_fmt_bytes c4 of
               Inl e \<Rightarrow> Inl e
             | Inr (array_value, c5) \<Rightarrow>
                 Inr (\<lparr>a_name = array_name, a_value = array_value,
                       a_data_type = array_type, a_data_type_fmt = array_type_fmt,
                       a_dimension = array_dimension, a_shape = array_shape\<rparr>, c5))
          else if array_type = DMAP then Inl DmapDataError
          else
            (case read_numerical_array buf array_type_fmt total_num_cells
                    array_fmt_bytes c4 of
               Inl e \<Rightarrow> Inl e
             | Inr (array_value, c5) \<Rightarrow>
                 Inr (\<lparr>a_name = array_name, a_value = array_value,
                       a_data_type = array_type, a_data_type_fmt = array_type_fmt,
                       a_dimension = array_dimension, a_shape = array_shape\<rparr>, c5)))))))))))))"

text \<open>The two loops of \<open>read_record\<close>, each storing what it reads under its name.\<close>

fun read_scalars :: "byte list \<Rightarrow> nat \<Rightarrow> dmap_record \<Rightarrow> int \<Rightarrow> error + (dmap_record \<times> int)" where
  "read_scalars buf 0 record cursor = Inr (record, cursor)"
| "read_scalars buf (Suc n) record cursor =
     (case read_scalar buf cursor of
        Inl e \<Rightarrow> Inl e
      | Inr (scalar, c) \<Rightarrow>
          read_scalars buf n (odict_set record (s_name scalar) (Scalar scalar)) c)"

fun read_arrays ::
  "byte list \<Rightarrow> int \<Rightarrow> nat \<Rightarrow> dmap_record \<Rightarrow> int \<Rightarrow> error + (dmap_record \<times> int)" where
  "read_arrays buf block_size 0 record cursor = Inr (record, cursor)"
| "read_arrays buf block_size (Suc n) record cursor =
     (case read_array buf block_size cursor of
        Inl e \<Rightarrow> Inl e
      | Inr (array, c) \<Rightarrow>
          read_arrays buf block_size n (odict_set record (a_name array) (Array array)) c)"

definition read_record :: "byte list \<Rightarrow> int \<Rightarrow> error + (dmap_record \<times> int)" where
  "read_record buf cursor =
     (let start_cursor_value = cursor
      in case read_int buf (cursor + 4) of
        Inl e \<Rightarrow> Inl e
      | Inr (block_size, c1) \<Rightarrow>
          let remaining_bytes = int (length buf) - c1 + 2 * 4
          in
     (case bytes_check block_size remaining_bytes of
        Some e \<Rightarrow> Inl e
      | None \<Rightarrow>
     (case zero_negative_check block_size of
        Some e \<Rightarrow> Inl e
      | None \<Rightarrow>
     (case read_int buf c1 of
        Inl e \<Rightarrow> Inl e
      | Inr (num_scalars, c2) \<Rightarrow>
     (case read_int buf c2 of
        Inl e \<Rightarrow> Inl e
      | Inr (num_arrays, c3) \<Rightarrow>
     (case zero_negative_check num_scalars of
        Some e \<Rightarrow> Inl e
      | None \<Rightarrow>
     (case zero_negative_check num_arrays of
        Some e \<Rightarrow> Inl e
      | None \<Rightarrow>
     (case bytes_check (num_scalars + num_arrays) block_size of
        Some e \<Rightarrow> Inl e
      | None \<Rightarrow>
     (case read_scalars buf (nat num_scalars) [] c3 of
        Inl e \<Rightarrow> Inl e
      | Inr (record, c4) \<Rightarrow>
     (case read_arrays buf block_size (nat num_arrays) record c4 of
        Inl e \<Rightarrow> Inl e
      | Inr (record', c5) \<Rightarrow>
          if c5 - start_cursor_value \<noteq> block_size then Inl CursorError
          else Inr (record', c5)))))))))))"

text \<open>
  \<open>read_records\<close>: records are read until the cursor reaches the end of the buffer.
  A record that is read moves the cursor forward by its block size, which is positive;
  that is why the loop ends.
\<close>

lemma read_int_cursor: "read_int buf c = Inr (n, c') \<Longrightarrow> c' = c + 4"
  by (auto simp: read_int_def read_data_def Let_def
           split: if_splits sum.splits pyval.splits list.splits option.splits)

lemma read_record_advances: "read_record buf c = Inr (r, c') \<Longrightarrow> c < c'"
  by (auto simp: read_record_def Let_def zero_negative_check_def
           split: sum.splits option.splits if_splits)

function read_records ::
  "byte list \<Rightarrow> int \<Rightarrow> dmap_record list \<Rightarrow> error + (dmap_record list \<times> int)" where
  "read_records buf cursor dmap_records =
     (if cursor < int (length buf) then
        (case read_record buf cursor of
           Inl e \<Rightarrow> Inl e
         | Inr (new_record, c) \<Rightarrow> read_records buf c (dmap_records @ [new_record]))
      else
        (case bytes_check cursor (int (length buf)) of
           Some e \<Rightarrow> Inl e
         | None \<Rightarrow> Inr (dmap_records, cursor)))"
  by pat_completeness auto
termination
  by (relation "measure (\<lambda>(buf, cursor, rs). nat (int (length buf) - cursor))")
     (auto dest: read_record_advances)

declare read_records.simps [simp del]

text \<open>
  Reading a data stream: the constructor of \<open>DmapRead\<close> refuses an empty stream and
  sets the cursor to 0, then \<open>read_records\<close> runs.
\<close>

definition DmapRead_init :: "byte list \<Rightarrow> error + int" where
  "DmapRead_init dmap_file = (if length dmap_file = 0 then Inl EmptyFileError else Inr 0)"

definition dmap_read_stream :: "byte list \<Rightarrow> error + dmap_record list" where
  "dmap_read_stream dmap_file =
     (case DmapRead_init dmap_file of
        Inl e \<Rightarrow> Inl e
      | Inr cursor \<Rightarrow>
          (case read_records dmap_file cursor [] of
             Inl e \<Rightarrow> Inl e
           | Inr (dmap_records, c) \<Rightarrow> Inr dmap_records))"

text \<open>
  \<open>test_initial_data_integrity\<close>. Its last test raises
  \<open>DmapDataError(self.data_file, message)\<close>, and a \<open>DmapRead\<close> has no attribute
  \<open>data_file\<close>: evaluating the argument raises \<open>AttributeError\<close>. The function
  returns the cursor it leaves, 0.
\<close>

function integrity_loop :: "byte list \<Rightarrow> int \<Rightarrow> int \<Rightarrow> error + (int \<times> int)" where
  "integrity_loop buf cursor total_block_size =
     (if cursor < int (length buf) then
        (case read_int buf (cursor + 4) of
           Inl e \<Rightarrow> Inl e
         | Inr (block_size, c1) \<Rightarrow>
             (case zero_negative_check block_size of
                Some e \<Rightarrow> Inl e
              | None \<Rightarrow>
                  (case bytes_check (total_block_size + block_size) (int (length buf)) of
                     Some e \<Rightarrow> Inl e
                   | None \<Rightarrow>
                       integrity_loop buf (c1 + block_size - 2 * 4)
                         (total_block_size + block_size))))
      else Inr (cursor, total_block_size))"
  by pat_completeness auto
termination
  by (relation "measure (\<lambda>(buf, cursor, total). nat (int (length buf) - cursor))")
     (auto simp: zero_negative_check_def split: if_splits dest: read_int_cursor)

declare integrity_loop.simps [simp del]

definition test_initial_data_integrity :: "byte list \<Rightarrow> int \<Rightarrow> error + int" where
  "test_initial_data_integrity buf cursor =
     (if cursor \<noteq> 0 then Inl CursorError
      else case integrity_loop buf cursor 0 of
        Inl e \<Rightarrow> Inl e
      | Inr (c, total_block_size) \<Rightarrow>
          if total_block_size \<noteq> int (length buf) then Inl AttributeError
          else Inr 0)"

subsection \<open>DmapWrite\<close>

text \<open>
  \<open>struct.pack\<close> of one value: an integer out of the range of its format, or a value
  of the wrong kind, raises \<open>struct.error\<close>. Under a floating-point format a float or
  an integer is accepted, and is rounded to the width of the format.
\<close>

definition struct_pack :: "string \<Rightarrow> pyval \<Rightarrow> error + byte list" where
  "struct_pack fmt v =
     (if fmt = [] then Inl StructError
      else case struct_int_fmt fmt of
        Some (n, is_signed) \<Rightarrow>
          (case v of
             PInt x \<Rightarrow>
               if (if is_signed then - (2 ^ (8 * n - 1)) \<le> x \<and> x < 2 ^ (8 * n - 1)
                   else 0 \<le> x \<and> x < 2 ^ (8 * n))
               then Inr (le_bytes n x) else Inl StructError
           | _ \<Rightarrow> Inl StructError)
      | None \<Rightarrow>
          (case struct_float_fmt fmt of
             None \<Rightarrow> Inl Unmodelled
           | Some n \<Rightarrow>
               (case PyFloat_AsDouble v of
                  None \<Rightarrow> Inl StructError
                | Some x \<Rightarrow>
                    Inr (le_bytes n (if fmt = ''f'' then float64_to_float32 x else x)))))"

text \<open>\<open>struct.pack('Ns', bs)\<close> writes exactly N bytes: \<open>bs\<close> cut or padded with zeros.\<close>

definition struct_pack_s :: "nat \<Rightarrow> byte list \<Rightarrow> byte list" where
  "struct_pack_s n bs = take n bs @ replicate (n - length bs) 0"

text \<open>
  A name or a text on the wire: \<open>"{0}\0".format(t)\<close> packed under the format
  \<open>'{len}s'\<close>, where \<open>len\<close> counts the characters of the text with its NUL, not the
  bytes of its encoding.
\<close>

definition cstring_bytes :: "pystr \<Rightarrow> error + byte list" where
  "cstring_bytes t =
     (let t0 = t @ [0]
      in case utf8_encode t0 of
        None \<Rightarrow> Inl UnicodeEncodeError
      | Some bs \<Rightarrow> Inr (struct_pack_s (length t0) bs))"

text \<open>\<open>chr(i).encode('utf-8')\<close>.\<close>

definition chr_encode :: "int \<Rightarrow> error + byte list" where
  "chr_encode i =
     (if i < 0 \<or> i > 1114111 then Inl ValueError
      else case utf8_encode [nat i] of
        None \<Rightarrow> Inl UnicodeEncodeError
      | Some bs \<Rightarrow> Inr bs)"

text \<open>\<open>struct.pack('c', chr(data_type).encode('utf-8'))\<close>: format \<open>c\<close> takes one byte.\<close>

definition type_code_bytes :: "int \<Rightarrow> error + byte list" where
  "type_code_bytes data_type =
     (case chr_encode data_type of
        Inl e \<Rightarrow> Inl e
      | Inr bs \<Rightarrow> if length bs = 1 then Inr bs else Inl StructError)"

definition dmap_scalar_to_bytes :: "DmapScalar \<Rightarrow> error + byte list" where
  "dmap_scalar_to_bytes scalar =
     (case cstring_bytes (s_name scalar) of
        Inl e \<Rightarrow> Inl e
      | Inr scalar_name_bytes \<Rightarrow>
     (case type_code_bytes (s_data_type scalar) of
        Inl e \<Rightarrow> Inl e
      | Inr scalar_type_bytes \<Rightarrow>
          let scalar_type_fmt = s_data_type_fmt scalar
          in
     (case (if scalar_type_fmt = ''s'' then
              (case s_value scalar of
                 PStr t \<Rightarrow> cstring_bytes t
               | _ \<Rightarrow> Inl Unmodelled)
            else if scalar_type_fmt = ''c'' then
              (case s_value scalar of
                 PInt v \<Rightarrow> chr_encode v
               | _ \<Rightarrow> Inl TypeError)
            else struct_pack scalar_type_fmt (s_value scalar)) of
        Inl e \<Rightarrow> Inl e
      | Inr scalar_data_bytes \<Rightarrow>
          Inr (scalar_name_bytes @ scalar_type_bytes @ scalar_data_bytes))))"

text \<open>The loop of \<open>dmap_array_to_bytes\<close> over \<open>array.shape\<close>.\<close>

fun shape_to_bytes :: "int list \<Rightarrow> byte list \<Rightarrow> error + byte list" where
  "shape_to_bytes [] array_shape_bytes = Inr array_shape_bytes"
| "shape_to_bytes (sz # shape) array_shape_bytes =
     (case struct_pack ''i'' (PInt sz) of
        Inl e \<Rightarrow> Inl e
      | Inr bs \<Rightarrow> shape_to_bytes shape (array_shape_bytes @ bs))"

definition dmap_array_to_bytes :: "DmapArray \<Rightarrow> error + byte list" where
  "dmap_array_to_bytes array =
     (case cstring_bytes (a_name array) of
        Inl e \<Rightarrow> Inl e
      | Inr array_name_bytes \<Rightarrow>
     (case type_code_bytes (a_data_type array) of
        Inl e \<Rightarrow> Inl e
      | Inr array_type_bytes \<Rightarrow>
     (case struct_pack ''i'' (PInt (a_dimension array)) of
        Inl e \<Rightarrow> Inl e
      | Inr array_dim_bytes \<Rightarrow>
     (case shape_to_bytes (a_shape array) [] of
        Inl e \<Rightarrow> Inl e
      | Inr array_shape_bytes \<Rightarrow>
          let array_data_bytes = nd_bytes (a_value array)
          in Inr (array_name_bytes @ array_type_bytes @ array_dim_bytes
                  @ array_shape_bytes @ array_data_bytes)))))"

text \<open>
  \<open>__dmap_record_to_bytes\<close>: the loop over the items of the record, then the header
  and the payload appended to \<open>dmap_bytearr\<close>.
\<close>

fun record_items_to_bytes ::
  "dmap_record \<Rightarrow> byte list \<Rightarrow> int \<Rightarrow> int \<Rightarrow> error + (byte list \<times> int \<times> int)" where
  "record_items_to_bytes [] data_bytearray num_scalars num_arrays =
     Inr (data_bytearray, num_scalars, num_arrays)"
| "record_items_to_bytes ((name, data_info) # items) data_bytearray num_scalars num_arrays =
     (case data_info of
        Scalar scalar \<Rightarrow>
          (case dmap_scalar_to_bytes scalar of
             Inl e \<Rightarrow> Inl e
           | Inr bs \<Rightarrow>
               record_items_to_bytes items (data_bytearray @ bs) (num_scalars + 1) num_arrays)
      | Array array \<Rightarrow>
          (case dmap_array_to_bytes array of
             Inl e \<Rightarrow> Inl e
           | Inr bs \<Rightarrow>
               record_items_to_bytes items (data_bytearray @ bs) num_scalars (num_arrays + 1))
      | NotDmap \<Rightarrow> Inl DmapTypeError)"

definition dmap_record_to_bytes :: "byte list \<Rightarrow> dmap_record \<Rightarrow> error + byte list" where
  "dmap_record_to_bytes dmap_bytearr record =
     (let encoding_identifier = 65537
      in case record_items_to_bytes record [] 0 0 of
        Inl e \<Rightarrow> Inl e
      | Inr (data_bytearray, num_scalars, num_arrays) \<Rightarrow>
          let block_size = int (length data_bytearray) + 16
          in
     (case struct_pack ''i'' (PInt encoding_identifier) of
        Inl e \<Rightarrow> Inl e
      | Inr b1 \<Rightarrow>
     (case struct_pack ''i'' (PInt block_size) of
        Inl e \<Rightarrow> Inl e
      | Inr b2 \<Rightarrow>
     (case struct_pack ''i'' (PInt num_scalars) of
        Inl e \<Rightarrow> Inl e
      | Inr b3 \<Rightarrow>
     (case struct_pack ''i'' (PInt num_arrays) of
        Inl e \<Rightarrow> Inl e
      | Inr b4 \<Rightarrow> Inr (dmap_bytearr @ b1 @ b2 @ b3 @ b4 @ data_bytearray))))))"

fun dmap_records_to_bytes :: "byte list \<Rightarrow> dmap_record list \<Rightarrow> error + byte list" where
  "dmap_records_to_bytes dmap_bytearr [] = Inr dmap_bytearr"
| "dmap_records_to_bytes dmap_bytearr (record # records) =
     (case dmap_record_to_bytes dmap_bytearr record of
        Inl e \<Rightarrow> Inl e
      | Inr dmap_bytearr' \<Rightarrow> dmap_records_to_bytes dmap_bytearr' records)"

text \<open>The instance: its records, the bytes written so far, and the file name.\<close>

record DmapWrite =
  dmap_records :: "dmap_record list"
  dmap_bytearr :: "byte list"
  filename :: string

definition empty_record_check :: "DmapWrite \<Rightarrow> error option" where
  "empty_record_check self = (if dmap_records self = [] then Some DmapDataError else None)"

text \<open>
  \<open>write_dmap_stream\<close> returns \<open>self.dmap_bytearr\<close>; the model returns the instance
  it leaves as well.
\<close>

definition write_dmap_stream ::
  "DmapWrite \<Rightarrow> dmap_record list \<Rightarrow> error + (DmapWrite \<times> byte list)" where
  "write_dmap_stream self dmap_records_arg =
     (let self1 = (if dmap_records self = [] then self\<lparr>dmap_records := dmap_records_arg\<rparr>
                   else self)
      in case empty_record_check self1 of
        Some e \<Rightarrow> Inl e
      | None \<Rightarrow>
          (case dmap_records_to_bytes (dmap_bytearr self1) (dmap_records self1) of
             Inl e \<Rightarrow> Inl e
           | Inr bytearr \<Rightarrow> Inr (self1\<lparr>dmap_bytearr := bytearr\<rparr>, bytearr)))"

subsection \<open>Validation against a product schema\<close>

text \<open>
  A field-group of a schema is a dictionary from field name to format; the tables of
  \<open>superdarn_formats\<close> are parameters of the writers.
\<close>

type_synonym file_struct = "(pystr \<times> string) list"

definition dict_keys :: "('k \<times> 'v) list \<Rightarrow> 'k set" where
  "dict_keys d = set (map fst d)"

definition dict_len :: "('k \<times> 'v) list \<Rightarrow> nat" where
  "dict_len d = card (dict_keys d)"

definition dict_key_diff :: "'k set \<Rightarrow> 'k set \<Rightarrow> 'k set" where
  "dict_key_diff dict1 dict2 = dict1 - dict2"

text \<open>\<open>set.union(*sets)\<close> needs at least one set: \<open>TypeError\<close> on the empty list.\<close>

definition dict_list2set :: "('k \<times> 'v) list list \<Rightarrow> error + 'k set" where
  "dict_list2set dict_list =
     (case map dict_keys dict_list of
        [] \<Rightarrow> Inl TypeError
      | s # sets \<Rightarrow> Inr (fold (\<lambda>t acc. acc \<union> t) sets s))"

fun missing_fields_loop ::
  "file_struct list \<Rightarrow> pystr set \<Rightarrow> pystr set \<Rightarrow> pystr set \<Rightarrow> pystr set" where
  "missing_fields_loop [] record_keys complete_set missing_fields = missing_fields"
| "missing_fields_loop (file_struct # rest) record_keys complete_set missing_fields =
     (let diff_fields = dict_key_diff (dict_keys file_struct) (record_keys \<inter> complete_set)
      in if card diff_fields \<noteq> 0 \<and> card diff_fields \<noteq> dict_len file_struct
         then missing_fields_loop rest record_keys complete_set (missing_fields \<union> diff_fields)
         else missing_fields_loop rest record_keys complete_set missing_fields)"

definition missing_field_check :: "file_struct list \<Rightarrow> dmap_record \<Rightarrow> error option" where
  "missing_field_check file_struct_list record =
     (case dict_list2set file_struct_list of
        Inl e \<Rightarrow> Some e
      | Inr complete_set \<Rightarrow>
          let missing_fields =
                missing_fields_loop file_struct_list (dict_keys record) complete_set {}
          in if card missing_fields > 0 then Some (SuperDARNFieldMissing missing_fields)
             else None)"

definition extra_field_check :: "file_struct list \<Rightarrow> dmap_record \<Rightarrow> error option" where
  "extra_field_check file_struct_list record =
     (case dict_list2set file_struct_list of
        Inl e \<Rightarrow> Some e
      | Inr file_struct \<Rightarrow>
          let extra_fields = dict_key_diff (dict_keys record) file_struct
          in if card extra_fields > 0 then Some (SuperDARNFieldExtra extra_fields)
             else None)"

text \<open>
  \<open>incorrect_types_check\<close>: \<open>complete_dict\<close> is updated with each group in turn; then
  each field of the record is looked up in it (\<open>KeyError\<close> when absent) and its
  \<open>data_type_fmt\<close> read (\<open>AttributeError\<close> for a value that has none).
\<close>

definition complete_dict :: "file_struct list \<Rightarrow> pystr \<Rightarrow> string option" where
  "complete_dict file_struct_list = foldl (++) Map.empty (map map_of file_struct_list)"

fun incorrect_types_loop ::
  "(pystr \<Rightarrow> string option) \<Rightarrow> dmap_record \<Rightarrow> pystr set \<Rightarrow> error + pystr set" where
  "incorrect_types_loop cd [] acc = Inr acc"
| "incorrect_types_loop cd ((param, data_info) # items) acc =
     (case (case data_info of
              Scalar scalar \<Rightarrow> Inr (s_data_type_fmt scalar)
            | Array array \<Rightarrow> Inr (a_data_type_fmt array)
            | NotDmap \<Rightarrow> Inl AttributeError) of
        Inl e \<Rightarrow> Inl e
      | Inr fmt \<Rightarrow>
          (case cd param of
             None \<Rightarrow> Inl KeyError
           | Some schema_fmt \<Rightarrow>
               if fmt \<noteq> schema_fmt then incorrect_types_loop cd items (insert param acc)
               else incorrect_types_loop cd items acc))"

definition incorrect_types_check :: "file_struct list \<Rightarrow> dmap_record \<Rightarrow> error option" where
  "incorrect_types_check file_struct_list record =
     (case incorrect_types_loop (complete_dict file_struct_list) record {} of
        Inl e \<Rightarrow> Some e
      | Inr incorrect \<Rightarrow>
          if card incorrect > 0 then Some (SuperDARNDataFormatError incorrect) else None)"

fun superDARN_file_structure_to_bytes ::
  "file_struct list \<Rightarrow> byte list \<Rightarrow> dmap_record list \<Rightarrow> error + byte list" where
  "superDARN_file_structure_to_bytes file_struct_list bytearr [] = Inr bytearr"
| "superDARN_file_structure_to_bytes file_struct_list bytearr (record # records) =
     (case extra_field_check file_struct_list record of
        Some e \<Rightarrow> Inl e
      | None \<Rightarrow>
     (case missing_field_check file_struct_list record of
        Some e \<Rightarrow> Inl e
      | None \<Rightarrow>
     (case incorrect_types_check file_struct_list record of
        Some e \<Rightarrow> Inl e
      | None \<Rightarrow>
     (case dmap_record_to_bytes bytearr record of
        Inl e \<Rightarrow> Inl e
      | Inr bytearr' \<Rightarrow>
          superDARN_file_structure_to_bytes file_struct_list bytearr' records))))"

text \<open>
  The product stream writers differ in their list of field-groups only, which is the
  first argument here (\<open>[Rawacf.types]\<close> for \<open>write_rawacf_stream\<close>,
  \<open>[Fitacf.types]\<close> for \<open>write_fitacf_stream\<close>, \<open>[Grid.types, Grid.extra_fields]\<close>
  for \<open>write_grid_stream\<close>, the five groups of \<open>Map\<close> for \<open>write_map_stream\<close>).
\<close>

definition write_product_stream ::
  "file_struct list \<Rightarrow> DmapWrite \<Rightarrow> dmap_record list \<Rightarrow> error + (DmapWrite \<times> byte list)" where
  "write_product_stream file_struct_list self product_data =
     (let self1 = (if product_data \<noteq> [] then self\<lparr>dmap_records := product_data\<rparr> else self)
      in case empty_record_check self1 of
        Some e \<Rightarrow> Inl e
      | None \<Rightarrow>
          (case superDARN_file_structure_to_bytes file_struct_list (dmap_bytearr self1)
                  (dmap_records self1) of
             Inl e \<Rightarrow> Inl e
           | Inr bytearr \<Rightarrow> Inr (self1\<lparr>dmap_bytearr := bytearr\<rparr>, bytearr)))"

definition write_rawacf_stream ::
  "file_struct \<Rightarrow> DmapWrite \<Rightarrow> dmap_record list \<Rightarrow> error + (DmapWrite \<times> byte list)" where
  "write_rawacf_stream Rawacf_types self rawacf_data =
     write_product_stream [Rawacf_types] self rawacf_data"

definition write_fitacf_stream ::
  "file_struct \<Rightarrow> DmapWrite \<Rightarrow> dmap_record list \<Rightarrow> error + (DmapWrite \<times> byte list)" where
  "write_fitacf_stream Fitacf_types self fitacf_data =
     write_product_stream [Fitacf_types] self fitacf_data"

definition write_grid_stream ::
  "file_struct \<Rightarrow> file_struct \<Rightarrow> DmapWrite \<Rightarrow> dmap_record list
     \<Rightarrow> error + (DmapWrite \<times> byte list)" where
  "write_grid_stream Grid_types Grid_extra_fields self grid_data =
     write_product_stream [Grid_types, Grid_extra_fields] self grid_data"

definition write_map_stream ::
  "file_struct \<Rightarrow> file_struct \<Rightarrow> file_struct \<Rightarrow> file_struct \<Rightarrow> file_struct
     \<Rightarrow> DmapWrite \<Rightarrow> dmap_record list \<Rightarrow> error + (DmapWrite \<times> byte list)" where
  "write_map_stream Map_types Map_extra_fields Map_fit_fields Map_model_fields Map_hmb_fields
       self map_data =
     write_product_stream
       [Map_types, Map_extra_fields, Map_fit_fields, Map_model_fields, Map_hmb_fields]
       self map_data"

section \<open>Notions used to state the properties\<close>

text \<open>
  A block is framed when it is at least as long as the eight bytes the prescan steps over
  and its block-size field, the bytes 4 to 7, holds its own length.
\<close>

definition framed :: "byte list \<Rightarrow> bool" where
  "framed b = (8 \<le> length b \<and> le_signed (take 4 (drop 4 b)) = int (length b))"

text \<open>
  A text that round-trips through the writer: ASCII characters with no NUL. (The writer
  sizes a text by its characters and not by the bytes of its encoding, and the reader
  ends it at the first NUL.)
\<close>

definition ascii_text :: "pystr \<Rightarrow> bool" where
  "ascii_text t = list_all (\<lambda>c. 0 < c \<and> c < 128) t"

text \<open>
  A float that format \<open>f\<close> writes and reads back unchanged: a binary64 number that is
  also a binary32 number.
\<close>

definition float32_exact :: "64 word \<Rightarrow> bool" where
  "float32_exact x = (float32_to_float64 (float64_to_float32 (uint x)) = uint x)"

text \<open>
  A scalar the writer and the reader agree on: its type code is one of the registry other
  than the reserved one, its format is the format of that code, a text or a one-byte
  character value is ASCII, and a value of a floating-point type is a float (not an
  integer) that its format writes and reads back unchanged: any float for the type
  \<open>DOUBLE\<close>, a float that is a binary32 number for the type \<open>FLOAT\<close>.
\<close>

definition valid_scalar :: "DmapScalar \<Rightarrow> bool" where
  "valid_scalar s =
     (ascii_text (s_name s)
      \<and> s_data_type s \<noteq> DMAP
      \<and> map_option fst (DMAP_DATA_TYPES (s_data_type s)) = Some (s_data_type_fmt s)
      \<and> (s_data_type_fmt s = ''s'' \<longrightarrow> (case s_value s of PStr t \<Rightarrow> ascii_text t | _ \<Rightarrow> False))
      \<and> (s_data_type_fmt s = ''c'' \<longrightarrow>
            (case s_value s of PInt v \<Rightarrow> 0 \<le> v \<and> v < 128 | _ \<Rightarrow> False))
      \<and> (s_data_type_fmt s = ''d'' \<longrightarrow> (case s_value s of PFloat x \<Rightarrow> True | _ \<Rightarrow> False))
      \<and> (s_data_type_fmt s = ''f'' \<longrightarrow>
            (case s_value s of PFloat x \<Rightarrow> float32_exact x | _ \<Rightarrow> False)))"

text \<open>
  An array the writer and the reader agree on, in a record of the given block size: a
  numeric type of the registry with its format, as many dimensions as \<open>dimension\<close>
  says, every dimension positive (or not negative, for the array named \<open>slist\<close>) and
  smaller than the block size, and a buffer of the element type holding
  \<open>product(shape)\<close> elements.
\<close>

definition valid_array :: "int \<Rightarrow> DmapArray \<Rightarrow> bool" where
  "valid_array record_size a =
     (ascii_text (a_name a)
      \<and> a_data_type a \<noteq> DMAP
      \<and> map_option fst (DMAP_DATA_TYPES (a_data_type a)) = Some (a_data_type_fmt a)
      \<and> a_data_type_fmt a \<noteq> ''s'' \<and> a_data_type_fmt a \<noteq> ''c''
      \<and> a_dimension a = int (length (a_shape a)) \<and> a_shape a \<noteq> []
      \<and> (if a_name a = py_str ''slist'' then list_all (\<lambda>x. 0 \<le> x) (a_shape a)
          else list_all (\<lambda>x. 0 < x) (a_shape a))
      \<and> list_all (\<lambda>x. x < record_size) (a_shape a)
      \<and> nd_dtype (a_value a) = DNum (a_data_type_fmt a)
      \<and> (case DMAP_DATA_TYPES (a_data_type a) of
            Some (_, w) \<Rightarrow> int (length (nd_bytes (a_value a))) = prod_list (a_shape a) * w
          | None \<Rightarrow> False))"

text \<open>The items of a record by kind, and the bytes the writer produces for one item.\<close>

fun is_scalar :: "pystr \<times> field \<Rightarrow> bool" where
  "is_scalar (k, Scalar s) = True"
| "is_scalar (k, f) = False"

fun is_array :: "pystr \<times> field \<Rightarrow> bool" where
  "is_array (k, Array a) = True"
| "is_array (k, f) = False"

fun item_to_bytes :: "pystr \<times> field \<Rightarrow> error + byte list" where
  "item_to_bytes (k, Scalar s) = dmap_scalar_to_bytes s"
| "item_to_bytes (k, Array a) = dmap_array_to_bytes a"
| "item_to_bytes (k, NotDmap) = Inl DmapTypeError"

definition item_bytes :: "pystr \<times> field \<Rightarrow> byte list" where
  "item_bytes it = (case item_to_bytes it of Inr b \<Rightarrow> b | Inl e \<Rightarrow> [])"

text \<open>The block size the writer gives a record: its payload and the 16 bytes of the header.\<close>

definition block_size_of :: "dmap_record \<Rightarrow> int" where
  "block_size_of r = int (length (concat (map item_bytes r))) + 16"

text \<open>
  A record the writer and the reader agree on: every item is stored under its own name
  and is a valid scalar or array, names are distinct, at least one scalar comes first,
  and at least one array follows, with nothing but arrays after the scalars.
\<close>

fun valid_item :: "int \<Rightarrow> pystr \<times> field \<Rightarrow> bool" where
  "valid_item record_size (k, Scalar s) = (k = s_name s \<and> valid_scalar s)"
| "valid_item record_size (k, Array a) = (k = a_name a \<and> valid_array record_size a)"
| "valid_item record_size (k, NotDmap) = False"

definition valid_record :: "dmap_record \<Rightarrow> bool" where
  "valid_record r =
     (list_all (valid_item (block_size_of r)) r
      \<and> distinct (map fst r)
      \<and> takeWhile is_scalar r \<noteq> []
      \<and> dropWhile is_scalar r \<noteq> []
      \<and> list_all is_array (dropWhile is_scalar r))"

text \<open>The item with the shape of its array reversed, which is what the reader returns.\<close>

fun reversed_shape :: "pystr \<times> field \<Rightarrow> pystr \<times> field" where
  "reversed_shape (k, Array a) = (k, Array (a\<lparr>a_shape := rev (a_shape a)\<rparr>))"
| "reversed_shape (k, f) = (k, f)"

text \<open>The bytes of one record, written on its own.\<close>

definition record_bytes :: "dmap_record \<Rightarrow> byte list" where
  "record_bytes r = (case dmap_record_to_bytes [] r of Inr b \<Rightarrow> b | Inl e \<Rightarrow> [])"

text \<open>An item whose shape, if it is an array, reads the same in both directions.\<close>

fun symmetric_shape :: "pystr \<times> field \<Rightarrow> bool" where
  "symmetric_shape (k, Array a) = (rev (a_shape a) = a_shape a)"
| "symmetric_shape (k, f) = True"

section \<open>Properties of the reader\<close>

subsection \<open>Integers on the wire\<close>

lemma length_le_bytes [simp]: "length (le_bytes n v) = n"
  by (induction n arbitrary: v) auto

lemma uint_byte_of_int: "uint (word_of_int v :: byte) = v mod 256"
  by (simp add: uint_word_of_int take_bit_eq_mod)

lemma le_val_le_bytes: "le_val (le_bytes n v) = v mod 256 ^ n"
proof (induction n arbitrary: v)
  case 0
  then show ?case by simp
next
  case (Suc n)
  have "v mod (256 * 256 ^ n) = 256 * (v div 256 mod 256 ^ n) + v mod 256"
    by (rule zmod_zmult2_eq) simp
  with Suc show ?case by (simp add: uint_byte_of_int)
qed

lemma le_val_le_bytes_unsigned:
  assumes "0 \<le> v" "v < 2 ^ (8 * n)"
  shows "le_val (le_bytes n v) = v"
proof -
  have "(256::int) ^ n = 2 ^ (8 * n)" by (simp add: power_mult)
  with assms show ?thesis by (simp add: le_val_le_bytes)
qed

lemma le_signed_le_bytes:
  assumes "0 < n" "- (2 ^ (8 * n - 1)) \<le> v" "v < 2 ^ (8 * n - 1)"
  shows "le_signed (le_bytes n v) = v"
proof -
  have p: "(256::int) ^ n = 2 * 2 ^ (8 * n - 1)"
  proof -
    have "(256::int) ^ n = 2 ^ (8 * n)" by (simp add: power_mult)
    also have "8 * n = Suc (8 * n - 1)" using assms(1) by simp
    finally show ?thesis by simp
  qed
  show ?thesis
  proof (cases "0 \<le> v")
    case True
    with assms p have "v mod 256 ^ n = v" by simp
    with assms p True show ?thesis by (simp add: le_signed_def le_val_le_bytes)
  next
    case False
    have "v mod 256 ^ n = (v + 256 ^ n) mod 256 ^ n"
      by simp
    also have "\<dots> = v + 256 ^ n"
      using assms p False by (intro mod_pos_pos_trivial) auto
    finally have "v mod 256 ^ n = v + 256 ^ n" .
    with assms p False show ?thesis by (simp add: le_signed_def le_val_le_bytes)
  qed
qed

subsection \<open>Reading integers and the errors of \<open>read_data\<close>\<close>

lemma struct_int_fmt_i: "struct_int_fmt ''i'' = Some (4, True)"
  by (simp add: struct_int_fmt_def)

lemma read_int_eq:
  "0 \<le> c \<Longrightarrow> c + 4 \<le> int (length buf) \<Longrightarrow>
   read_int buf c = Inr (le_signed (take 4 (drop (nat c) buf)), c + 4)"
  by (simp add: read_int_def read_data_def struct_unpack_from_def struct_calcsize_def
        struct_int_fmt_i buffer_at_def struct_decode_def Let_def)

lemma scan_nul_error: "scan_nul buf c k = Inl e \<Longrightarrow> e = IndexError"
  by (induction buf c k rule: scan_nul.induct)
     (subst (asm) scan_nul.simps, auto split: option.splits if_splits)

lemma buffer_at_error: "buffer_at buf c n = Inl e \<Longrightarrow> e = StructError"
  by (auto simp: buffer_at_def Let_def split: if_splits)

lemma struct_unpack_from_error:
  "struct_unpack_from fmt buf c = Inl e \<Longrightarrow> e = StructError \<or> e = Unmodelled"
  by (auto simp: struct_unpack_from_def split: option.splits sum.splits dest: buffer_at_error)

lemma read_data_error:
  "read_data buf fmt n c = Inl e \<Longrightarrow>
   e \<in> {CursorError, IndexError, MismatchByteError, StructError, UnicodeDecodeError, Unmodelled}"
  unfolding read_data_def Let_def bytes_check_def
  by (auto split: sum.splits option.splits list.splits if_splits
        dest: scan_nul_error buffer_at_error struct_unpack_from_error)

subsection \<open>The reserved type code in a scalar\<close>

text \<open>
  Claim C7. A scalar whose type code is the reserved code 0 (\<open>DMAP\<close>) is to be refused
  with the error of an invalid scalar type, which \<open>read_scalar\<close> raises as
  \<open>DmapDataError\<close>. The code does not do so: its test compares the format, a text, with
  the integer \<open>DMAP\<close>, so the refusing branch is never taken. On the scalar named
  \<open>a\<close> with type code 0, followed by two more bytes, \<open>read_data\<close> is called with the
  empty format, \<open>struct.unpack_from\<close> returns the empty tuple and taking its first
  component raises \<open>IndexError\<close>; and \<open>read_scalar\<close> raises \<open>DmapDataError\<close> on no
  input at all.
\<close>

theorem read_scalar_reserved_type_code:
  "read_scalar [97, 0, 0, 5, 5] 0 = Inl IndexError
   \<and> (\<forall>buf c. read_scalar buf c \<noteq> Inl DmapDataError)"
proof
  show "read_scalar [97, 0, 0, 5, 5] 0 = Inl IndexError"
    by code_simp
  show "\<forall>buf c. read_scalar buf c \<noteq> Inl DmapDataError"
    by (auto simp: read_scalar_def read_name_def read_type_def check_data_type_def
        split: sum.splits option.splits pyval.splits if_splits dest: read_data_error)
qed

subsection \<open>The header of a record\<close>

text \<open>
  Claim C8. Once the block size of a record has been read and accepted, the numbers of
  scalars and of arrays are read, and each must be positive: 0 gives \<open>ZeroByteError\<close>
  and a negative number \<open>NegativeByteError\<close> (the two errors of a zero or negative
  length), the number of scalars being tested first. Their sum must not exceed the block
  size, else \<open>MismatchByteError\<close>. So whenever \<open>read_record\<close> returns a record, both
  numbers are positive and their sum is at most the block size: a record with no scalar
  or with no array is never returned.
\<close>

theorem read_record_counts_checked:
  assumes "read_int buf (cursor + 4) = Inr (block_size, c1)"
    and "bytes_check block_size (int (length buf) - c1 + 2 * 4) = None"
    and "zero_negative_check block_size = None"
    and "read_int buf c1 = Inr (num_scalars, c2)"
    and "read_int buf c2 = Inr (num_arrays, c3)"
  shows "(num_scalars = 0 \<longrightarrow> read_record buf cursor = Inl ZeroByteError)
       \<and> (num_scalars < 0 \<longrightarrow> read_record buf cursor = Inl NegativeByteError)
       \<and> (0 < num_scalars \<and> num_arrays = 0 \<longrightarrow> read_record buf cursor = Inl ZeroByteError)
       \<and> (0 < num_scalars \<and> num_arrays < 0
            \<longrightarrow> read_record buf cursor = Inl NegativeByteError)
       \<and> (0 < num_scalars \<and> 0 < num_arrays \<and> block_size < num_scalars + num_arrays
            \<longrightarrow> read_record buf cursor = Inl MismatchByteError)
       \<and> (\<forall>r c'. read_record buf cursor = Inr (r, c')
            \<longrightarrow> 0 < num_scalars \<and> 0 < num_arrays \<and> num_scalars + num_arrays \<le> block_size)"
  using assms
  by (auto simp: read_record_def Let_def zero_negative_check_def bytes_check_def
           split: sum.splits option.splits if_splits)

theorem read_record_counts_checked_witness:
  "read_int [1, 0, 1, 0, 16, 0, 0, 0, 0, 0, 0, 0, 1, 0, 0, 0] (0 + 4) = Inr (16, 8)
   \<and> bytes_check 16
        (int (length [1, 0, 1, 0, 16, 0, 0, 0, 0, 0, 0, 0, 1, 0, 0, 0 :: byte]) - 8 + 2 * 4)
      = None
   \<and> zero_negative_check 16 = None
   \<and> read_int [1, 0, 1, 0, 16, 0, 0, 0, 0, 0, 0, 0, 1, 0, 0, 0] 8 = Inr (0, 12)
   \<and> read_int [1, 0, 1, 0, 16, 0, 0, 0, 0, 0, 0, 0, 1, 0, 0, 0] 12 = Inr (1, 16)
   \<and> read_record [1, 0, 1, 0, 16, 0, 0, 0, 0, 0, 0, 0, 1, 0, 0, 0] 0 = Inl ZeroByteError"
proof -
  let ?buf = "[1, 0, 1, 0, 16, 0, 0, 0, 0, 0, 0, 0, 1, 0, 0, 0] :: byte list"
  have h1: "read_int ?buf (0 + 4) = Inr (16, 8)"
    by (simp add: read_int_eq le_signed_def)
  have h2: "bytes_check 16 (int (length ?buf) - 8 + 2 * 4) = None"
    by (simp add: bytes_check_def)
  have h3: "zero_negative_check 16 = None"
    by (simp add: zero_negative_check_def)
  have h4: "read_int ?buf 8 = Inr (0, 12)"
    by (simp add: read_int_eq le_signed_def)
  have h5: "read_int ?buf 12 = Inr (1, 16)"
    by (simp add: read_int_eq le_signed_def)
  from read_record_counts_checked [OF h1 h2 h3 h4 h5] h1 h2 h3 h4 h5
  show ?thesis by simp
qed

subsection \<open>The cursor at the end of a record\<close>

text \<open>
  Claim C9. After the scalars and the arrays of a record have been read, \<open>read_record\<close>
  compares the distance from the start of the record to the cursor with the block size:
  a record it returns ends exactly \<open>block_size\<close> bytes after its start, and when the
  scalars and arrays were read and the distance differs, the result is \<open>CursorError\<close>
  and no record.
\<close>

theorem read_record_cursor_checked:
  assumes "read_int buf (cursor + 4) = Inr (block_size, c1)"
  shows "(\<forall>r c'. read_record buf cursor = Inr (r, c') \<longrightarrow> c' - cursor = block_size)
       \<and> (\<forall>num_scalars c2 num_arrays c3 record c4 record' c5.
             bytes_check block_size (int (length buf) - c1 + 2 * 4) = None
             \<and> zero_negative_check block_size = None
             \<and> read_int buf c1 = Inr (num_scalars, c2)
             \<and> read_int buf c2 = Inr (num_arrays, c3)
             \<and> zero_negative_check num_scalars = None
             \<and> zero_negative_check num_arrays = None
             \<and> bytes_check (num_scalars + num_arrays) block_size = None
             \<and> read_scalars buf (nat num_scalars) [] c3 = Inr (record, c4)
             \<and> read_arrays buf block_size (nat num_arrays) record c4 = Inr (record', c5)
             \<longrightarrow> read_record buf cursor =
                   (if c5 - cursor \<noteq> block_size then Inl CursorError else Inr (record', c5)))"
  using assms
  by (auto simp: read_record_def Let_def split: sum.splits option.splits if_splits)

text \<open>
  The witness is the record of one scalar and one array, 58 bytes long, whose block
  size has been lowered to 57.
\<close>

theorem read_record_cursor_checked_witness:
  "read_int
     [1, 0, 1, 0, 57, 0, 0, 0, 1, 0, 0, 0, 1, 0, 0, 0, 115, 116, 105, 100,
      0, 2, 7, 0, 100, 97, 116, 97, 0, 4, 2, 0, 0, 0, 2, 0, 0, 0, 2, 0, 0,
      0, 0, 0, 128, 63, 0, 0, 0, 64, 0, 0, 64, 64, 0, 0, 128, 64] (0 + 4) = Inr (57, 8)
   \<and> read_record
     [1, 0, 1, 0, 57, 0, 0, 0, 1, 0, 0, 0, 1, 0, 0, 0, 115, 116, 105, 100,
      0, 2, 7, 0, 100, 97, 116, 97, 0, 4, 2, 0, 0, 0, 2, 0, 0, 0, 2, 0, 0,
      0, 0, 0, 128, 63, 0, 0, 0, 64, 0, 0, 64, 64, 0, 0, 128, 64] 0 = Inl CursorError"
proof -
  let ?buf = "[1, 0, 1, 0, 57, 0, 0, 0, 1, 0, 0, 0, 1, 0, 0, 0, 115, 116, 105, 100,
      0, 2, 7, 0, 100, 97, 116, 97, 0, 4, 2, 0, 0, 0, 2, 0, 0, 0, 2, 0, 0,
      0, 0, 0, 128, 63, 0, 0, 0, 64, 0, 0, 64, 64, 0, 0, 128, 64] :: byte list"
  let ?stid = "\<lparr>s_name = [115, 116, 105, 100], s_value = PInt 7, s_data_type = 2,
                 s_data_type_fmt = ''h''\<rparr>"
  let ?data = "\<lparr>a_name = [100, 97, 116, 97],
                 a_value = \<lparr>nd_dtype = DNum ''f'',
                   nd_bytes = [0, 0, 128, 63, 0, 0, 0, 64, 0, 0, 64, 64, 0, 0, 128, 64]\<rparr>,
                 a_data_type = 4, a_data_type_fmt = ''f'', a_dimension = 2,
                 a_shape = [2, 2]\<rparr>"
  have h1: "read_int ?buf (0 + 4) = Inr (57, 8)"
    by (simp add: read_int_eq le_signed_def)
  have h2: "read_int ?buf 8 = Inr (1, 12)"
    by (simp add: read_int_eq le_signed_def)
  have h3: "read_int ?buf 12 = Inr (1, 16)"
    by (simp add: read_int_eq le_signed_def)
  have h4: "read_scalars ?buf (nat 1) [] 16 = Inr ([([115, 116, 105, 100], Scalar ?stid)], 24)"
    by code_simp
  have h5: "read_arrays ?buf 57 (nat 1) [([115, 116, 105, 100], Scalar ?stid)] 24
              = Inr ([([115, 116, 105, 100], Scalar ?stid),
                      ([100, 97, 116, 97], Array ?data)], 58)"
    by code_simp
  have "read_record ?buf 0 = (if 58 - 0 \<noteq> (57::int) then Inl CursorError
          else Inr ([([115, 116, 105, 100], Scalar ?stid),
                     ([100, 97, 116, 97], Array ?data)], 58))"
    using read_record_cursor_checked [OF h1, THEN conjunct2, rule_format,
            of 1 12 1 16 "[([115, 116, 105, 100], Scalar ?stid)]" 24
               "[([115, 116, 105, 100], Scalar ?stid), ([100, 97, 116, 97], Array ?data)]" 58]
          h2 h3 h4 h5
    by (simp add: bytes_check_def zero_negative_check_def)
  with h1 show ?thesis by simp
qed

section \<open>Properties of the writer\<close>

subsection \<open>Which records a stream writer encodes\<close>

text \<open>
  Claim C10. \<open>write_dmap_stream\<close> takes its argument only when the instance holds no
  record: an instance that holds records encodes those, whatever the argument is. The
  product stream writers (\<open>write_rawacf_stream\<close> and the others, which differ in their
  field-groups only) do the opposite: an argument that is not empty replaces the records
  of the instance.
\<close>

theorem write_dmap_stream_keeps_records:
  "(dmap_records self \<noteq> [] \<longrightarrow>
      write_dmap_stream self arg =
        (case dmap_records_to_bytes (dmap_bytearr self) (dmap_records self) of
           Inl e \<Rightarrow> Inl e
         | Inr b \<Rightarrow> Inr (self\<lparr>dmap_bytearr := b\<rparr>, b)))
   \<and> (dmap_records self = [] \<and> arg \<noteq> [] \<longrightarrow>
      write_dmap_stream self arg =
        (case dmap_records_to_bytes (dmap_bytearr self) arg of
           Inl e \<Rightarrow> Inl e
         | Inr b \<Rightarrow> Inr (self\<lparr>dmap_records := arg, dmap_bytearr := b\<rparr>, b)))
   \<and> (arg \<noteq> [] \<longrightarrow>
      write_rawacf_stream Rawacf_types self arg =
        (case superDARN_file_structure_to_bytes [Rawacf_types] (dmap_bytearr self) arg of
           Inl e \<Rightarrow> Inl e
         | Inr b \<Rightarrow> Inr (self\<lparr>dmap_records := arg, dmap_bytearr := b\<rparr>, b)))
   \<and> (arg \<noteq> [] \<longrightarrow>
      write_product_stream groups self arg =
        (case superDARN_file_structure_to_bytes groups (dmap_bytearr self) arg of
           Inl e \<Rightarrow> Inl e
         | Inr b \<Rightarrow> Inr (self\<lparr>dmap_records := arg, dmap_bytearr := b\<rparr>, b)))"
  by (auto simp: write_dmap_stream_def write_rawacf_stream_def write_product_stream_def
        empty_record_check_def Let_def split: sum.splits)

text \<open>
  The witness: an instance holding one record with no field, and an argument whose
  record could not be encoded at all.
\<close>

theorem write_dmap_stream_keeps_records_witness:
  "dmap_records \<lparr>dmap_records = [[]], dmap_bytearr = [], filename = []\<rparr> \<noteq> []
   \<and> write_dmap_stream \<lparr>dmap_records = [[]], dmap_bytearr = [], filename = []\<rparr>
        [[([120], NotDmap)]]
      = Inr (\<lparr>dmap_records = [[]],
               dmap_bytearr = [1, 0, 1, 0, 16, 0, 0, 0, 0, 0, 0, 0, 0, 0, 0, 0],
               filename = []\<rparr>,
             [1, 0, 1, 0, 16, 0, 0, 0, 0, 0, 0, 0, 0, 0, 0, 0])"
proof -
  let ?self = "\<lparr>dmap_records = [[]], dmap_bytearr = [], filename = []\<rparr>"
  have h: "dmap_records ?self \<noteq> []"
    by simp
  have b: "dmap_records_to_bytes (dmap_bytearr ?self) (dmap_records ?self)
             = Inr [1, 0, 1, 0, 16, 0, 0, 0, 0, 0, 0, 0, 0, 0, 0, 0]"
    by code_simp
  from write_dmap_stream_keeps_records [of ?self "[[([120], NotDmap)]]", THEN conjunct1]
       h b
  show ?thesis by simp
qed

subsection \<open>The missing-field check\<close>

lemma fold_union_keys:
  "fold (\<lambda>t acc. acc \<union> t) sets s = s \<union> \<Union> (set sets)"
  by (induction sets arbitrary: s) auto

lemma dict_list2set_eq:
  "dict_list \<noteq> [] \<Longrightarrow> dict_list2set dict_list = Inr (\<Union> (dict_keys ` set dict_list))"
  by (cases dict_list) (auto simp: dict_list2set_def fold_union_keys)

lemma finite_dict_keys [simp]: "finite (dict_keys d)"
  by (simp add: dict_keys_def)

lemma card_diff_group:
  "card (dict_keys g - s) \<noteq> dict_len g \<longleftrightarrow> dict_keys g - s \<noteq> dict_keys g"
proof -
  have "dict_keys g - s \<subseteq> dict_keys g" by blast
  then show ?thesis
    unfolding dict_len_def
    by (metis card_subset_eq finite_dict_keys)
qed

lemma missing_fields_loop_eq:
  "missing_fields_loop fsl rk cs acc =
     acc \<union> \<Union> ((\<lambda>g. dict_keys g - (rk \<inter> cs)) `
              {g \<in> set fsl. dict_keys g - (rk \<inter> cs) \<noteq> {}
                            \<and> dict_keys g - (rk \<inter> cs) \<noteq> dict_keys g})"
proof (induction fsl arbitrary: acc)
  case Nil
  then show ?case by simp
next
  case (Cons g fsl)
  show ?case
    by (simp add: Cons.IH dict_key_diff_def Let_def card_diff_group) blast
qed

text \<open>
  Claim C4. For each field-group, \<open>missing_field_check\<close> takes the fields of the
  group that are not among the fields the record shares with the whole schema. A group
  for which this difference is neither empty nor the whole group is partly present. If
  some group is partly present, the check raises \<open>SuperDARNFieldMissing\<close> naming
  exactly the fields of these differences; if every group is wholly present or wholly
  absent, it raises nothing.
\<close>

theorem missing_field_check_all_or_nothing:
  assumes "file_struct_list \<noteq> []"
  shows "let complete_set = \<Union> (dict_keys ` set file_struct_list);
             diff_fields = (\<lambda>g. dict_keys g - (dict_keys record \<inter> complete_set));
             partly = {g \<in> set file_struct_list.
                         diff_fields g \<noteq> {} \<and> diff_fields g \<noteq> dict_keys g}
         in (partly \<noteq> {} \<longrightarrow>
               missing_field_check file_struct_list record
                 = Some (SuperDARNFieldMissing (\<Union> (diff_fields ` partly))))
          \<and> (partly = {} \<longrightarrow> missing_field_check file_struct_list record = None)"
proof -
  define cs where "cs = \<Union> (dict_keys ` set file_struct_list)"
  define d where "d = (\<lambda>g :: file_struct. dict_keys g - (dict_keys record \<inter> cs))"
  define p where "p = {g \<in> set file_struct_list. d g \<noteq> {} \<and> d g \<noteq> dict_keys g}"
  define M where "M = \<Union> (d ` p)"
  have loop: "missing_fields_loop file_struct_list (dict_keys record) cs {} = M"
    unfolding M_def p_def d_def by (subst missing_fields_loop_eq) simp
  have "finite M"
    unfolding M_def p_def d_def by auto
  moreover have "p \<noteq> {} \<longleftrightarrow> M \<noteq> {}"
    unfolding M_def p_def by blast
  ultimately have card: "card M > 0 \<longleftrightarrow> p \<noteq> {}"
    by (simp add: card_gt_0_iff)
  have "dict_list2set file_struct_list = Inr cs"
    using assms unfolding cs_def by (rule dict_list2set_eq)
  then have "missing_field_check file_struct_list record =
          (if card M > 0 then Some (SuperDARNFieldMissing M) else None)"
    by (simp add: missing_field_check_def loop)
  with card show ?thesis
    unfolding Let_def M_def p_def d_def cs_def by simp
qed


text \<open>
  The witness: a schema of the groups \<open>{a, b}\<close> and \<open>{x, y}\<close>, and a record with the
  fields \<open>a\<close>, \<open>b\<close> and \<open>x\<close>.
\<close>

theorem missing_field_check_all_or_nothing_witness:
  "[[([97], ''i''), ([98], ''h'')], [([120], ''f''), ([121], ''f'')]] \<noteq> ([] :: file_struct list)
   \<and> missing_field_check [[([97], ''i''), ([98], ''h'')], [([120], ''f''), ([121], ''f'')]]
         [([97], NotDmap), ([98], NotDmap), ([120], NotDmap)]
       = Some (SuperDARNFieldMissing {[121]})"
proof -
  let ?fsl = "[[([97], ''i''), ([98], ''h'')], [([120], ''f''), ([121], ''f'')]] :: file_struct list"
  let ?rec = "[([97], NotDmap), ([98], NotDmap), ([120], NotDmap)] :: dmap_record"
  have h: "?fsl \<noteq> []" by simp
  have p: "{g \<in> set ?fsl.
              dict_keys g - (dict_keys ?rec \<inter> \<Union> (dict_keys ` set ?fsl)) \<noteq> {}
              \<and> dict_keys g - (dict_keys ?rec \<inter> \<Union> (dict_keys ` set ?fsl)) \<noteq> dict_keys g}
           = {[([120], ''f''), ([121], ''f'')]}"
    by (auto simp: dict_keys_def)
  from missing_field_check_all_or_nothing [OF h, of ?rec]
  show ?thesis
    unfolding Let_def p by (auto simp: dict_keys_def)
qed

section \<open>The integrity prescan\<close>

lemma read_int_Inr:
  "read_int buf c = Inr (n, c') \<Longrightarrow> c' = c + 4 \<and> c + 4 \<le> int (length buf)"
  by (auto simp: read_int_def read_data_def Let_def
           split: if_splits sum.splits pyval.splits list.splits option.splits)

lemma read_int_error:
  "read_int buf c = Inl e \<Longrightarrow>
   e \<in> {CursorError, IndexError, MismatchByteError, StructError, UnicodeDecodeError,
         Unmodelled, TypeError}"
  by (auto simp: read_int_def split: sum.splits pyval.splits dest: read_data_error)

lemma read_int_in_block:
  assumes "n + 4 \<le> length b"
  shows "read_int (pre @ b @ post) (int (length pre) + int n)
           = Inr (le_signed (take 4 (drop n b)), int (length pre) + int n + 4)"
proof -
  have "nat (int (length pre) + int n) = length pre + n" by simp
  then have "take 4 (drop (nat (int (length pre) + int n)) (pre @ b @ post)) = take 4 (drop n b)"
    using assms by simp
  moreover have "int (length pre) + int n + 4 \<le> int (length (pre @ b @ post))"
    using assms by simp
  ultimately show ?thesis
    by (subst read_int_eq) simp_all
qed

lemma integrity_loop_skip_framed:
  "(\<forall>b \<in> set blocks. framed b) \<Longrightarrow>
   integrity_loop (pre @ concat blocks @ post) (int (length pre)) (int (length pre))
     = integrity_loop (pre @ concat blocks @ post)
         (int (length pre + length (concat blocks))) (int (length pre + length (concat blocks)))"
proof (induction blocks arbitrary: pre)
  case Nil
  then show ?case by simp
next
  case (Cons b blocks)
  then have fb: "8 \<le> length b" "le_signed (take 4 (drop 4 b)) = int (length b)"
    and rest: "\<forall>b \<in> set blocks. framed b"
    by (auto simp: framed_def)
  let ?buf = "pre @ concat (b # blocks) @ post"
  have buf: "?buf = pre @ b @ (concat blocks @ post)" by simp
  have rd: "read_int ?buf (int (length pre) + 4) = Inr (int (length b), int (length pre) + 8)"
    using read_int_in_block [of 4 b pre "concat blocks @ post"] fb by (simp only: buf) simp
  have step: "integrity_loop ?buf (int (length pre)) (int (length pre))
        = integrity_loop ?buf (int (length pre) + int (length b)) (int (length pre) + int (length b))"
    using fb rd
    by (subst integrity_loop.simps)
       (auto simp add: zero_negative_check_def bytes_check_def)
  have "integrity_loop ((pre @ b) @ concat blocks @ post) (int (length (pre @ b))) (int (length (pre @ b)))
        = integrity_loop ((pre @ b) @ concat blocks @ post)
            (int (length (pre @ b) + length (concat blocks)))
            (int (length (pre @ b) + length (concat blocks)))"
    by (rule Cons.IH [OF rest])
  with step show ?case by (simp add: add.assoc)
qed

lemma integrity_loop_total:
  "integrity_loop buf c t = Inr (c', t') \<Longrightarrow> t = c \<Longrightarrow> c \<le> int (length buf) \<Longrightarrow>
   c' = int (length buf) \<and> t' = int (length buf)"
proof (induction buf c t rule: integrity_loop.induct)
  case (1 buf cursor total)
  show ?case
  proof (cases "cursor < int (length buf)")
    case False
    with "1.prems" show ?thesis
      by (subst (asm) integrity_loop.simps) simp
  next
    case True
    from "1.prems"(1) True obtain block_size c1 where
      rd: "read_int buf (cursor + 4) = Inr (block_size, c1)"
      and z: "zero_negative_check block_size = None"
      and b: "bytes_check (total + block_size) (int (length buf)) = None"
      and r: "integrity_loop buf (c1 + block_size - 2 * 4) (total + block_size) = Inr (c', t')"
      by (subst (asm) integrity_loop.simps) (auto split: sum.splits option.splits)
    from rd have c1: "c1 = cursor + 8" by (auto dest: read_int_Inr)
    from b have le: "total + block_size \<le> int (length buf)"
      by (simp add: bytes_check_def split: if_splits)
    show ?thesis
      using "1.IH" [OF True rd refl z b r] c1 "1.prems"(2) le by simp
  qed
qed

lemma integrity_loop_error:
  "integrity_loop buf c t = Inl e \<Longrightarrow>
   e \<in> {CursorError, IndexError, MismatchByteError, StructError, UnicodeDecodeError,
         Unmodelled, TypeError, ZeroByteError, NegativeByteError}"
proof (induction buf c t rule: integrity_loop.induct)
  case (1 buf cursor total)
  from "1.prems" show ?case
    apply (subst (asm) integrity_loop.simps)
    apply (auto split: if_splits sum.splits option.splits
                simp: zero_negative_check_def bytes_check_def
                dest: read_int_error "1.IH")
    done
qed


lemma struct_pack_i:
  "struct_pack ''i'' (PInt x) = Inr bs \<longleftrightarrow>
     bs = le_bytes 4 x \<and> - 2147483648 \<le> x \<and> x < 2147483648"
  by (auto simp: struct_pack_def struct_int_fmt_i)

lemma le_signed_le_bytes_4:
  "- 2147483648 \<le> x \<Longrightarrow> x < 2147483648 \<Longrightarrow> le_signed (le_bytes 4 x) = x"
  by (rule le_signed_le_bytes) simp_all

lemma dmap_record_to_bytes_framed:
  assumes "dmap_record_to_bytes acc r = Inr out"
  shows "\<exists>b. out = acc @ b \<and> framed b"
proof -
  from assms obtain data ns na b1 b2 b3 b4 where
    p1: "struct_pack ''i'' (PInt 65537) = Inr b1"
    and p2: "struct_pack ''i'' (PInt (int (length data) + 16)) = Inr b2"
    and p3: "struct_pack ''i'' (PInt ns) = Inr b3"
    and p4: "struct_pack ''i'' (PInt na) = Inr b4"
    and out: "out = acc @ b1 @ b2 @ b3 @ b4 @ data"
    by (auto simp: dmap_record_to_bytes_def Let_def split: sum.splits)
  from p1 p2 p3 p4 have len: "length b1 = 4" "length b2 = 4" "length b3 = 4" "length b4 = 4"
    and b2: "le_signed b2 = int (length data) + 16"
    by (auto simp: struct_pack_i le_signed_le_bytes_4)
  have "framed (b1 @ b2 @ b3 @ b4 @ data)"
    using len b2 by (simp add: framed_def)
  with out show ?thesis by blast
qed

lemma dmap_records_to_bytes_framed:
  "dmap_records_to_bytes acc rs = Inr out \<Longrightarrow>
   \<exists>blocks. out = acc @ concat blocks \<and> (\<forall>b \<in> set blocks. framed b)
            \<and> length blocks = length rs"
proof (induction rs arbitrary: acc)
  case Nil
  then show ?case by (auto intro: exI [of _ "[]"])
next
  case (Cons r rs)
  from Cons.prems obtain acc' where
    a: "dmap_record_to_bytes acc r = Inr acc'"
    and b: "dmap_records_to_bytes acc' rs = Inr out"
    by (auto split: sum.splits)
  from dmap_record_to_bytes_framed [OF a] obtain b0 where
    b0: "acc' = acc @ b0" "framed b0" by blast
  from Cons.IH [OF b] obtain blocks where
    bl: "out = acc' @ concat blocks" "\<forall>b \<in> set blocks. framed b" "length blocks = length rs"
    by blast
  show ?case
    using b0 bl by (intro exI [of _ "b0 # blocks"]) simp
qed

lemma integrity_framed:
  assumes "\<forall>b \<in> set blocks. framed b"
  shows "test_initial_data_integrity (concat blocks) 0 = Inr 0"
proof -
  have "integrity_loop ([] @ concat blocks @ []) (int (length ([] :: byte list)))
          (int (length ([] :: byte list)))
        = integrity_loop ([] @ concat blocks @ [])
            (int (length ([] :: byte list) + length (concat blocks)))
            (int (length ([] :: byte list) + length (concat blocks)))"
    by (rule integrity_loop_skip_framed [OF assms])
  then have "integrity_loop (concat blocks) 0 0
        = integrity_loop (concat blocks) (int (length (concat blocks)))
            (int (length (concat blocks)))"
    by simp
  also have "\<dots> = Inr (int (length (concat blocks)), int (length (concat blocks)))"
    by (subst integrity_loop.simps) (simp add: bytes_check_def)
  finally show ?thesis
    by (simp add: test_initial_data_integrity_def)
qed

lemma integrity_last_too_long:
  assumes "\<forall>b \<in> set blocks. framed b" and "8 \<le> length final"
    and "le_signed (take 4 (drop 4 final)) = int (length final) + 1"
  shows "test_initial_data_integrity (concat blocks @ final) 0 = Inl MismatchByteError"
proof -
  let ?buf = "concat blocks @ final"
  let ?n = "int (length (concat blocks))"
  have "integrity_loop ([] @ concat blocks @ final) (int (length ([] :: byte list)))
          (int (length ([] :: byte list)))
        = integrity_loop ([] @ concat blocks @ final)
            (int (length ([] :: byte list) + length (concat blocks)))
            (int (length ([] :: byte list) + length (concat blocks)))"
    by (rule integrity_loop_skip_framed [OF assms(1)])
  then have skip: "integrity_loop ?buf 0 0 = integrity_loop ?buf ?n ?n"
    by simp
  have rd: "read_int ?buf (?n + 4) = Inr (int (length final) + 1, ?n + 8)"
    using read_int_in_block [of 4 final "concat blocks" "[]"] assms(2,3) by simp
  have "integrity_loop ?buf ?n ?n = Inl MismatchByteError"
    using assms(2) rd
    by (subst integrity_loop.simps) (auto simp add: zero_negative_check_def bytes_check_def)
  with skip show ?thesis
    by (simp add: test_initial_data_integrity_def)
qed

text \<open>
  Claim C5, as amended. The prescan raises \<open>CursorError\<close> when the cursor is not 0.
  Inside its loop the running total is tested against the length of the buffer, and the
  cursor always equals the total, so a loop that ends has a total equal to the length of
  the buffer: the test after the loop never fails, and the prescan never ends with the
  error of a corrupt file (\<open>DmapDataError\<close>), nor with the \<open>AttributeError\<close> that
  building it would cause. Over the bytes written for any list of records it succeeds.
  When the last block of a buffer of framed blocks declares one byte more than it has,
  the total exceeds the length of the buffer and the prescan fails with
  \<open>MismatchByteError\<close>.
\<close>

theorem integrity_prescan:
  "(cursor \<noteq> 0 \<longrightarrow> test_initial_data_integrity buf cursor = Inl CursorError)
   \<and> test_initial_data_integrity buf cursor \<noteq> Inl DmapDataError
   \<and> test_initial_data_integrity buf cursor \<noteq> Inl AttributeError
   \<and> (\<forall>c total. integrity_loop buf 0 0 = Inr (c, total) \<longrightarrow> total = int (length buf))
   \<and> (\<forall>records. dmap_records_to_bytes [] records = Inr buf
         \<longrightarrow> test_initial_data_integrity buf 0 = Inr 0)
   \<and> (\<forall>blocks final.
         buf = concat blocks @ final \<and> (\<forall>b \<in> set blocks. framed b) \<and> 8 \<le> length final
         \<and> le_signed (take 4 (drop 4 final)) = int (length final) + 1
         \<longrightarrow> test_initial_data_integrity buf 0 = Inl MismatchByteError)"
proof -
  have tot: "total = int (length buf)" if "integrity_loop buf 0 0 = Inr (c, total)" for c total
    using integrity_loop_total [OF that] by simp
  have a: "cursor \<noteq> 0 \<longrightarrow> test_initial_data_integrity buf cursor = Inl CursorError"
    by (simp add: test_initial_data_integrity_def)
  have b: "test_initial_data_integrity buf cursor \<noteq> Inl DmapDataError"
    by (auto simp: test_initial_data_integrity_def split: sum.splits if_splits
             dest: integrity_loop_error)
  have c: "test_initial_data_integrity buf cursor \<noteq> Inl AttributeError"
    by (auto simp: test_initial_data_integrity_def split: sum.splits if_splits
             dest: integrity_loop_error tot)
  have d: "test_initial_data_integrity buf 0 = Inr 0"
    if "dmap_records_to_bytes [] records = Inr buf" for records
    using dmap_records_to_bytes_framed [OF that] integrity_framed by auto
  have e: "test_initial_data_integrity buf 0 = Inl MismatchByteError"
    if "buf = concat blocks @ final" "\<forall>b \<in> set blocks. framed b" "8 \<le> length final"
       "le_signed (take 4 (drop 4 final)) = int (length final) + 1" for blocks final
    using integrity_last_too_long [OF that(2,3,4)] that(1) by simp
  from a b c tot d e show ?thesis by blast
qed


text \<open>
  The witness: the bytes written for one record with no field, with the cursor at 3 and
  at 0.
\<close>

theorem integrity_prescan_witness:
  "(3::int) \<noteq> 0
   \<and> test_initial_data_integrity [1, 0, 1, 0, 16, 0, 0, 0, 0, 0, 0, 0, 0, 0, 0, 0] 3
       = Inl CursorError
   \<and> dmap_records_to_bytes [] [[]] = Inr [1, 0, 1, 0, 16, 0, 0, 0, 0, 0, 0, 0, 0, 0, 0, 0]
   \<and> test_initial_data_integrity [1, 0, 1, 0, 16, 0, 0, 0, 0, 0, 0, 0, 0, 0, 0, 0] 0 = Inr 0"
proof -
  let ?buf = "[1, 0, 1, 0, 16, 0, 0, 0, 0, 0, 0, 0, 0, 0, 0, 0] :: byte list"
  have h: "dmap_records_to_bytes [] [[]] = Inr ?buf"
    by code_simp
  from integrity_prescan [of 3 ?buf] have 1: "test_initial_data_integrity ?buf 3 = Inl CursorError"
    by simp
  from integrity_prescan [of 0 ?buf] h have 2: "test_initial_data_integrity ?buf 0 = Inr 0"
    by blast
  from h 1 2 show ?thesis by simp
qed

text \<open>
  The claim as it was stated asks for the error of a corrupt file when the block size of
  one record is raised by one. On two copies of the record of one scalar and one array,
  58 bytes each, the second declaring 59, the prescan fails with \<open>MismatchByteError\<close>.
\<close>

theorem integrity_prescan_counterexample:
  "test_initial_data_integrity
     [1, 0, 1, 0, 58, 0, 0, 0, 1, 0, 0, 0, 1, 0, 0, 0, 115, 116, 105, 100,
      0, 2, 7, 0, 100, 97, 116, 97, 0, 4, 2, 0, 0, 0, 2, 0, 0, 0, 2, 0, 0,
      0, 0, 0, 128, 63, 0, 0, 0, 64, 0, 0, 64, 64, 0, 0, 128, 64,
      1, 0, 1, 0, 59, 0, 0, 0, 1, 0, 0, 0, 1, 0, 0, 0, 115, 116, 105, 100,
      0, 2, 7, 0, 100, 97, 116, 97, 0, 4, 2, 0, 0, 0, 2, 0, 0, 0, 2, 0, 0,
      0, 0, 0, 128, 63, 0, 0, 0, 64, 0, 0, 64, 64, 0, 0, 128, 64] 0
   = Inl MismatchByteError"
  by code_simp

section \<open>Reading back what the writer wrote\<close>

subsection \<open>Names, type codes and values\<close>

lemma utf8_encode_ascii:
  "\<forall>c \<in> set t. c < 128 \<Longrightarrow> utf8_encode t = Some (map of_nat t)"
  by (induction t) (auto simp: utf8_encode_cp_def)

lemma utf8_decode_ascii: "\<forall>c \<in> set t. c < 128 \<Longrightarrow> utf8_decode t = Some t"
  by (induction t) auto

lemma unat_byte_of_nat: "c < 256 \<Longrightarrow> unat (of_nat c :: byte) = c"
  by (simp add: unat_of_nat take_bit_nat_eq_self)

lemma map_unat_ascii: "\<forall>c \<in> set t. c < 128 \<Longrightarrow> map unat (map of_nat t :: byte list) = t"
  by (induction t) (auto simp: unat_byte_of_nat)

lemma cstring_bytes_ascii:
  assumes "ascii_text t"
  shows "cstring_bytes t = Inr (map of_nat t @ [0])"
proof -
  from assms have "\<forall>c \<in> set (t @ [0]). c < 128"
    by (auto simp: ascii_text_def list_all_iff)
  then have "utf8_encode (t @ [0]) = Some (map of_nat (t @ [0]))"
    by (rule utf8_encode_ascii)
  then show ?thesis
    by (simp add: cstring_bytes_def struct_pack_s_def)
qed

lemma py_getitem_at:
  "py_getitem (pre @ x # post) (int (length pre)) = Some x"
  by (simp add: py_getitem_def)

lemma py_getitem_in:
  "k < length xs \<Longrightarrow> py_getitem (pre @ xs @ post) (int (length pre) + int k) = Some (xs ! k)"
  by (simp add: py_getitem_def nth_append nat_add_distrib)

lemma scan_nul_finds:
  assumes "\<forall>b \<in> set xs. b \<noteq> 0"
  shows "k \<le> length xs \<Longrightarrow>
         scan_nul (pre @ xs @ 0 # post) (int (length pre)) (int k) = Inr (int (length xs))"
proof (induction "length xs - k" arbitrary: k)
  case 0
  then have k: "k = length xs" by simp
  have "py_getitem (pre @ (xs @ [0]) @ post) (int (length pre) + int (length xs)) = Some ((xs @ [0]) ! length xs)"
    by (rule py_getitem_in) simp
  then have "py_getitem (pre @ xs @ 0 # post) (int (length pre) + int k) = Some 0"
    using k by simp
  then show ?case
    using k by (subst scan_nul.simps) simp
next
  case (Suc n)
  then have k: "k < length xs" by simp
  have "py_getitem (pre @ xs @ (0 # post)) (int (length pre) + int k) = Some (xs ! k)"
    using k by (rule py_getitem_in)
  moreover have "xs ! k \<noteq> 0" using assms k by simp
  moreover have "scan_nul (pre @ xs @ 0 # post) (int (length pre)) (int (Suc k)) = Inr (int (length xs))"
    using Suc by (intro Suc.hyps(1)) simp_all
  ultimately show ?case
    by (subst scan_nul.simps) (simp add: add.commute)
qed

lemma ascii_bytes_nonzero:
  "ascii_text t \<Longrightarrow> \<forall>b \<in> set (map of_nat t :: byte list). b \<noteq> 0"
proof
  fix b :: byte
  assume a: "ascii_text t" and "b \<in> set (map of_nat t)"
  then obtain c where c: "c \<in> set t" "b = of_nat c" by auto
  with a have "0 < c" "c < 128" by (auto simp: ascii_text_def list_all_iff)
  then have "unat (of_nat c :: byte) = c" by (simp add: unat_byte_of_nat)
  with \<open>0 < c\<close> c show "b \<noteq> 0" by auto
qed

lemma buffer_at_in:
  "buffer_at (pre @ xs @ post) (int (length pre)) (length xs) = Inr xs"
  by (simp add: buffer_at_def)

lemma read_data_text:
  assumes "ascii_text t"
  shows "read_data (pre @ (map of_nat t @ [0]) @ post) ''s'' 1 (int (length pre))
           = Inr (PStr t, int (length pre) + int (length t) + 1)"
proof -
  let ?xs = "map of_nat t :: byte list"
  let ?buf = "pre @ ?xs @ 0 # post"
  have sc: "scan_nul ?buf (int (length pre)) 0 = Inr (int (length ?xs))"
    using scan_nul_finds [OF ascii_bytes_nonzero [OF assms], of 0 pre post] by simp
  have ba: "buffer_at ?buf (int (length pre)) (length ?xs) = Inr ?xs"
    using buffer_at_in [of pre ?xs "0 # post"] by simp
  have lt: "\<forall>c \<in> set t. c < 128" using assms by (auto simp: ascii_text_def list_all_iff)
  have "map unat ?xs = t"
    using lt by (rule map_unat_ascii)
  then have dec: "utf8_decode (map unat ?xs) = Some t"
    using utf8_decode_ascii [OF lt] by (simp only:)
  show ?thesis
    using sc ba dec by (simp add: read_data_def Let_def bytes_check_def)
qed

lemma read_name_ascii:
  assumes "ascii_text t"
  shows "read_name (pre @ (map of_nat t @ [0]) @ post) (int (length pre))
           = Inr (t, int (length pre) + int (length t) + 1)"
  by (simp only: read_name_def read_data_text [OF assms]) simp

lemma read_data_char:
  "read_data (pre @ b # post) ''c'' 1 (int (length pre)) = Inr (PInt (uint b), int (length pre) + 1)"
  by (simp add: read_data_def Let_def py_getitem_at)

lemma read_type_at:
  "read_type (pre @ b # post) (int (length pre)) = Inr (uint b, int (length pre) + 1)"
  by (simp add: read_type_def read_data_def Let_def py_getitem_at)


lemma uint_byte_small: "0 \<le> v \<Longrightarrow> v < 256 \<Longrightarrow> uint (of_nat (nat v) :: byte) = v"
  by (simp add: uint_byte_of_int)

lemma uint_word_of_int_small: "0 \<le> v \<Longrightarrow> v < 256 \<Longrightarrow> uint (word_of_int v :: byte) = v"
  by (simp add: uint_byte_of_int)

lemma chr_encode_ascii:
  "0 \<le> v \<Longrightarrow> v < 128 \<Longrightarrow> chr_encode v = Inr [of_nat (nat v)]"
  by (simp add: chr_encode_def utf8_encode_cp_def)

lemma DMAP_DATA_TYPES_range:
  "DMAP_DATA_TYPES t = Some (fmt, w) \<Longrightarrow> 0 \<le> t \<and> t < 128"
  by (auto simp: DMAP_DATA_TYPES_def DMAP_def CHAR_code_def SHORT_def INT_code_def FLOAT_def
        DOUBLE_def STRING_def LONG_def UCHAR_def USHORT_def UINT_def ULONG_def
      split: if_splits)

lemma type_code_bytes_table:
  "DMAP_DATA_TYPES t = Some (fmt, w) \<Longrightarrow> type_code_bytes t = Inr [of_nat (nat t)]"
  by (drule DMAP_DATA_TYPES_range) (simp add: type_code_bytes_def chr_encode_ascii)

lemma DMAP_DATA_TYPES_numeric:
  assumes "DMAP_DATA_TYPES t = Some (fmt, w)" "t \<noteq> DMAP" "fmt \<noteq> ''s''" "fmt \<noteq> ''c''"
  shows "0 < w \<and> struct_calcsize fmt = Some (nat w) \<and> np_itemsize fmt = Some (nat w)
         \<and> fmt \<noteq> []"
  using assms
  by (auto simp: DMAP_DATA_TYPES_def struct_calcsize_def struct_int_fmt_def
        struct_float_fmt_def np_itemsize_def split: if_splits)

text \<open>
  The conversions on known numbers, as \<open>struct\<close> gives them: 1.0, 0.1, -2.5, two numbers
  too large for binary32 (an infinity), the two ties next to 1.0, numbers at the bottom
  of the binary32 range, an infinity and a NaN; and integers, of which
  \<open>2 ^ 53 + 1\<close> is a tie and \<open>2 ^ 1024\<close> is too large.
\<close>

lemma float_conversions:
  "map float64_to_float32
     [4607182418800017408, 4591870180066957722, 13836183955189006336, 5190260616003865117,
      5183643170835005440, 4607182419068452864, 4607182419605323776, 3936146074321813504,
      3931642474694443008, 3933894274508128256, 1, 9218868437227405312, 9221120237041090560]
   = [1065353216, 1036831949, 3223322624, 2139095040, 2139095040, 1065353216, 1065353218, 1,
      0, 1, 0, 2139095040, 2143289344]
   \<and> map float32_to_float64
        [1065353216, 1036831949, 1, 8388607, 2139095039, 2139095040, 3221225472]
      = [4607182418800017408, 4591870180174331904, 3936146074321813504, 4039728864677593088,
         5183643170566569984, 9218868437227405312, 13835058055282163712]
   \<and> map int_to_float64 [0, 7, - 3, 9007199254740993, 9007199254740995, 2 ^ 1024]
      = [Some 0, Some 4619567317775286272, Some 13837309855095848960,
         Some 4845873199050653696, Some 4845873199050653698, None]"
  by code_simp

lemma round_shift_nonneg: "0 \<le> m \<Longrightarrow> 0 \<le> round_shift m d"
  by (auto simp: round_shift_def Let_def pos_imp_zdiv_nonneg_iff)

lemma float64_to_float32_range:
  assumes "0 \<le> b" "b < 2 ^ 64"
  shows "0 \<le> float64_to_float32 b \<and> float64_to_float32 b < 2 ^ 32"
proof -
  define s where "s = b div 2 ^ 63"
  define m where "m = b mod 2 ^ 52"
  define e where "e = (b div 2 ^ 52) mod 2048"
  have s: "0 \<le> s" "s \<le> 1"
  proof -
    show "0 \<le> s" using assms by (simp add: s_def pos_imp_zdiv_nonneg_iff)
    have "b < 2 * 2 ^ 63" using assms by simp
    then have "b div 2 ^ 63 < 2" by (simp add: div_less_iff_less_mult)
    then show "s \<le> 1" by (simp add: s_def)
  qed
  have m: "0 \<le> m" "m < 2 ^ 52" by (simp_all add: m_def)
  have e: "0 \<le> e" by (simp add: e_def)
  have pl: "0 \<le> (m div 2 ^ 29) mod 2 ^ 22" "(m div 2 ^ 29) mod 2 ^ 22 < 2 ^ 22"
    by simp_all
  define sig where "sig = (if e = 0 then m else m + 2 ^ 52)"
  define p where "p = (if e = 0 then 1 else e) - 1075"
  define x where "x = int (bit_length sig) - 1 + p"
  define q where "q = (if x \<ge> - 126 then x - 23 else - 149)"
  define r where "r = round_shift sig (nat (q - p))"
  define bits where "bits = (q + 149) * 2 ^ 23 + r"
  have "0 \<le> sig" using m by (simp add: sig_def)
  then have r: "0 \<le> r" unfolding r_def by (rule round_shift_nonneg)
  have q: "- 149 \<le> q" by (simp add: q_def)
  then have "0 \<le> (q + 149) * 2 ^ 23" by simp
  with r have b0: "0 \<le> bits" by (simp add: bits_def)
  have mb: "0 \<le> min bits (255 * 2 ^ 23)" "min bits (255 * 2 ^ 23) \<le> 255 * 2 ^ 23"
    using b0 by simp_all
  have eq: "float64_to_float32 b =
    (if e = 2047 then
           s * 2 ^ 31 + 255 * 2 ^ 23
             + (if m = 0 then 0 else 2 ^ 22 + (m div 2 ^ 29) mod 2 ^ 22)
         else if e = 0 \<and> m = 0 then s * 2 ^ 31
         else s * 2 ^ 31 + min bits (255 * 2 ^ 23))"
    unfolding float64_to_float32_def Let_def s_def m_def e_def bits_def r_def q_def x_def p_def sig_def
    by (rule refl)
  show ?thesis
    unfolding eq using s pl mb by (auto split: if_splits)
qed

lemma struct_pack_length:
  assumes "struct_pack fmt v = Inr bs" "struct_calcsize fmt = Some n"
  shows "length bs = n"
  using assms
  by (auto simp: struct_pack_def struct_calcsize_def
           split: if_splits option.splits pyval.splits prod.splits)

lemma struct_pack_decode:
  assumes "struct_pack fmt v = Inr bs" "struct_calcsize fmt = Some n"
    and "fmt = ''d'' \<longrightarrow> (case v of PFloat x \<Rightarrow> True | _ \<Rightarrow> False)"
    and "fmt = ''f'' \<longrightarrow> (case v of PFloat x \<Rightarrow> float32_exact x | _ \<Rightarrow> False)"
  shows "struct_decode fmt bs = [v]"
proof (cases "struct_int_fmt fmt")
  case None
  with assms(1,2) have ne: "fmt \<noteq> []" and f: "fmt = ''f'' \<or> fmt = ''d''"
    by (auto simp: struct_pack_def struct_calcsize_def struct_float_fmt_def split: if_splits)
  from f show ?thesis
  proof
    assume fm: "fmt = ''f''"
    with assms(4) obtain x where v: "v = PFloat x" and ex: "float32_exact x"
      by (auto split: pyval.splits)
    from fm v assms(1) have bs: "bs = le_bytes 4 (float64_to_float32 (uint x))"
      by (simp add: struct_pack_def struct_int_fmt_def struct_float_fmt_def
            PyFloat_AsDouble_def)
    have "uint x < 2 ^ 64" using uint_bounded [of x] by simp
    with float64_to_float32_range [of "uint x"]
    have "0 \<le> float64_to_float32 (uint x)" "float64_to_float32 (uint x) < 2 ^ (8 * 4)"
      by simp_all
    then have "le_val (le_bytes 4 (float64_to_float32 (uint x))) = float64_to_float32 (uint x)"
      by (rule le_val_le_bytes_unsigned)
    with ex show ?thesis
      by (simp add: struct_decode_def fm struct_int_fmt_def bs v float32_exact_def)
  next
    assume fm: "fmt = ''d''"
    with assms(3) obtain x where v: "v = PFloat x"
      by (auto split: pyval.splits)
    from fm v assms(1) have bs: "bs = le_bytes 8 (uint x)"
      by (simp add: struct_pack_def struct_int_fmt_def struct_float_fmt_def
            PyFloat_AsDouble_def)
    have "uint x < 2 ^ (8 * 8)" using uint_bounded [of x] by simp
    then have "le_val (le_bytes 8 (uint x)) = uint x"
      by (intro le_val_le_bytes_unsigned) simp_all
    then show ?thesis
      by (simp add: struct_decode_def fm struct_int_fmt_def bs v)
  qed
next
  case (Some p)
  with assms(2) obtain sg where si: "struct_int_fmt fmt = Some (n, sg)" and ne: "fmt \<noteq> []"
    by (cases p) (auto simp: struct_calcsize_def struct_int_fmt_def split: if_splits)
  from si have n0: "0 < n"
    by (auto simp: struct_int_fmt_def split: if_splits)
  from assms(1) si ne obtain x where
    v: "v = PInt x" and bs: "bs = le_bytes n x"
    and rng: "if sg then - (2 ^ (8 * n - 1)) \<le> x \<and> x < 2 ^ (8 * n - 1)
              else 0 \<le> x \<and> x < 2 ^ (8 * n)"
    by (auto simp: struct_pack_def split: pyval.splits if_splits)
  have "(if sg then le_signed (le_bytes n x) else le_val (le_bytes n x)) = x"
    using rng n0
    by (auto simp: le_signed_le_bytes le_val_le_bytes_unsigned split: if_splits)
  with si ne v bs show ?thesis
    by (simp add: struct_decode_def)
qed

lemma read_data_packed:
  assumes "struct_pack fmt v = Inr bs" "struct_calcsize fmt = Some n" "0 < n"
    "fmt \<noteq> ''s''" "fmt \<noteq> ''c''"
    and "fmt = ''d'' \<longrightarrow> (case v of PFloat x \<Rightarrow> True | _ \<Rightarrow> False)"
    and "fmt = ''f'' \<longrightarrow> (case v of PFloat x \<Rightarrow> float32_exact x | _ \<Rightarrow> False)"
  shows "read_data (pre @ bs @ post) fmt (int n) (int (length pre))
           = Inr (v, int (length pre) + int n)"
proof -
  have l: "length bs = n" by (rule struct_pack_length [OF assms(1,2)])
  have d: "struct_decode fmt bs = [v]" by (rule struct_pack_decode [OF assms(1,2,6,7)])
  have "buffer_at (pre @ bs @ post) (int (length pre)) n = Inr bs"
    using buffer_at_in [of pre bs post] l by simp
  then have "struct_unpack_from fmt (pre @ bs @ post) (int (length pre)) = Inr [v]"
    using assms(2) d by (simp add: struct_unpack_from_def)
  then show ?thesis
    using assms(3,4,5) l by (simp add: read_data_def Let_def)
qed

lemma read_scalar_roundtrip:
  assumes "valid_scalar s" and "dmap_scalar_to_bytes s = Inr bs"
  shows "read_scalar (pre @ bs @ post) (int (length pre)) = Inr (s, int (length pre) + int (length bs))"
proof -
  from assms(1) obtain w where
    nm: "ascii_text (s_name s)" and nd: "s_data_type s \<noteq> DMAP"
    and tb: "DMAP_DATA_TYPES (s_data_type s) = Some (s_data_type_fmt s, w)"
    by (auto simp: valid_scalar_def)
  let ?nb = "map of_nat (s_name s) @ [0] :: byte list"
  let ?tb = "of_nat (nat (s_data_type s)) :: byte"
  from assms(2) nm tb obtain vb where
    vb: "(if s_data_type_fmt s = ''s'' then
              (case s_value s of PStr t \<Rightarrow> cstring_bytes t | _ \<Rightarrow> Inl Unmodelled)
            else if s_data_type_fmt s = ''c'' then
              (case s_value s of PInt v \<Rightarrow> chr_encode v | _ \<Rightarrow> Inl TypeError)
            else struct_pack (s_data_type_fmt s) (s_value s)) = Inr vb"
    and bs: "bs = ?nb @ [?tb] @ vb"
    by (auto simp: dmap_scalar_to_bytes_def cstring_bytes_ascii type_code_bytes_table Let_def
             split: sum.splits)
  let ?buf = "pre @ bs @ post"
  have buf1: "?buf = pre @ ?nb @ (?tb # vb @ post)" using bs by simp
  have r1: "read_name ?buf (int (length pre)) = Inr (s_name s, int (length pre) + int (length (s_name s)) + 1)"
    unfolding buf1 using read_name_ascii [OF nm, of pre "?tb # vb @ post"] by simp
  let ?pre2 = "pre @ ?nb"
  have buf2: "?buf = ?pre2 @ ?tb # (vb @ post)" using bs by simp
  have l2: "int (length ?pre2) = int (length pre) + int (length (s_name s)) + 1" by simp
  have ut: "uint ?tb = s_data_type s"
    using DMAP_DATA_TYPES_range [OF tb] by (intro uint_byte_small) auto
  have r2: "read_type ?buf (int (length pre) + int (length (s_name s)) + 1)
              = Inr (s_data_type s, int (length pre) + int (length (s_name s)) + 2)"
    unfolding buf2 using read_type_at [of ?pre2 ?tb "vb @ post"] ut by (simp add: l2 [symmetric])
  let ?pre3 = "pre @ ?nb @ [?tb]"
  have buf3: "?buf = ?pre3 @ vb @ post" using bs by simp
  have l3: "int (length ?pre3) = int (length pre) + int (length (s_name s)) + 2" by simp
  have r3: "read_data ?buf (s_data_type_fmt s) w (int (length pre) + int (length (s_name s)) + 2)
              = Inr (s_value s, int (length pre) + int (length bs))"
  proof (cases "s_data_type_fmt s = ''s''")
    case True
    with assms(1) obtain t where t: "s_value s = PStr t" "ascii_text t"
      by (auto simp: valid_scalar_def split: pyval.splits)
    with vb True have vbe: "vb = map of_nat t @ [0]"
      by (simp add: cstring_bytes_ascii)
    from tb True have w: "w = 1"
      by (auto simp: DMAP_DATA_TYPES_def split: if_splits)
    have "read_data (?pre3 @ (map of_nat t @ [0]) @ post) ''s'' 1 (int (length ?pre3))
            = Inr (PStr t, int (length ?pre3) + int (length t) + 1)"
      by (rule read_data_text [OF t(2)])
    then show ?thesis
      unfolding buf3 vbe using True t w bs vbe by (simp add: l3 [symmetric])
  next
    case False
    note ns = False
    show ?thesis
    proof (cases "s_data_type_fmt s = ''c''")
      case True
      with assms(1) obtain v where v: "s_value s = PInt v" "0 \<le> v" "v < 128"
        by (auto simp: valid_scalar_def split: pyval.splits)
      with vb True have vbe: "vb = [of_nat (nat v)]"
        by (simp add: chr_encode_ascii)
      from tb True have w: "w = 1"
        by (auto simp: DMAP_DATA_TYPES_def split: if_splits)
      have "read_data (?pre3 @ of_nat (nat v) # post) ''c'' 1 (int (length ?pre3))
              = Inr (PInt (uint (of_nat (nat v) :: byte)), int (length ?pre3) + 1)"
        by (rule read_data_char)
      then show ?thesis
        unfolding buf3 vbe using True v w bs vbe
        by (simp add: l3 [symmetric] uint_word_of_int_small)
    next
      case False
      from DMAP_DATA_TYPES_numeric [OF tb nd ns False]
      have w: "0 < w" "struct_calcsize (s_data_type_fmt s) = Some (nat w)" by simp_all
      from vb ns False have pk: "struct_pack (s_data_type_fmt s) (s_value s) = Inr vb" by simp
      have lv: "length vb = nat w" by (rule struct_pack_length [OF pk w(2)])
      have fd: "s_data_type_fmt s = ''d'' \<longrightarrow> (case s_value s of PFloat x \<Rightarrow> True | _ \<Rightarrow> False)"
        and ff: "s_data_type_fmt s = ''f''
                   \<longrightarrow> (case s_value s of PFloat x \<Rightarrow> float32_exact x | _ \<Rightarrow> False)"
        using assms(1) by (simp_all add: valid_scalar_def)
      have "read_data (?pre3 @ vb @ post) (s_data_type_fmt s) (int (nat w)) (int (length ?pre3))
              = Inr (s_value s, int (length ?pre3) + int (nat w))"
        using w by (intro read_data_packed [OF pk w(2) _ ns False fd ff]) simp
      then show ?thesis
        unfolding buf3 using w lv bs by (simp add: l3 [symmetric])
    qed
  qed
  show ?thesis
    using r1 r2 r3 tb
    by (simp add: read_scalar_def check_data_type_def)
qed


lemma shape_to_bytes_eq:
  "shape_to_bytes ds acc = Inr out \<Longrightarrow>
   out = acc @ concat (map (le_bytes 4) ds)
   \<and> (\<forall>d \<in> set ds. - 2147483648 \<le> d \<and> d < 2147483648)"
proof (induction ds arbitrary: acc)
  case Nil
  then show ?case by simp
next
  case (Cons d ds)
  from Cons.prems have r: "- 2147483648 \<le> d \<and> d < 2147483648"
    and rest: "shape_to_bytes ds (acc @ le_bytes 4 d) = Inr out"
    by (auto simp: struct_pack_i split: sum.splits)
  from Cons.IH [OF rest] r show ?case by simp
qed

lemma read_shape_packed:
  "\<forall>d \<in> set ds. - 2147483648 \<le> d \<and> d < 2147483648 \<Longrightarrow>
   read_shape (pre @ concat (map (le_bytes 4) ds) @ post) (length ds) (int (length pre))
     = Inr (ds, int (length pre) + 4 * int (length ds))"
proof (induction ds arbitrary: pre)
  case Nil
  then show ?case by simp
next
  case (Cons d ds)
  let ?b = "le_bytes 4 d"
  have rd: "read_int (pre @ ?b @ (concat (map (le_bytes 4) ds) @ post)) (int (length pre) + int 0)
              = Inr (le_signed (take 4 (drop 0 ?b)), int (length pre) + int 0 + 4)"
    by (rule read_int_in_block) simp
  have d: "le_signed ?b = d"
    using Cons.prems by (intro le_signed_le_bytes_4) auto
  have ih: "read_shape ((pre @ ?b) @ concat (map (le_bytes 4) ds) @ post) (length ds)
              (int (length (pre @ ?b)))
            = Inr (ds, int (length (pre @ ?b)) + 4 * int (length ds))"
    using Cons.prems by (intro Cons.IH) auto
  show ?case
    using rd d ih by simp
qed

lemma np_frombuffer_in:
  assumes "0 \<le> count" "int (length data) = count * w" "np_itemsize fmt = Some (nat w)" "0 < w"
  shows "np_frombuffer (pre @ data @ post) fmt count (int (length pre))
           = Inr \<lparr>nd_dtype = DNum fmt, nd_bytes = data\<rparr>"
proof -
  have "nat count * nat w = length data"
    using assms(1,2,4) by (metis nat_int nat_mult_distrib)
  then show ?thesis
    using assms by (simp add: np_frombuffer_def Let_def)
qed

lemma prod_list_nonneg: "\<forall>x \<in> set xs. (0::int) \<le> x \<Longrightarrow> 0 \<le> prod_list xs"
  by (induction xs) auto

lemma read_array_roundtrip:
  assumes va: "valid_array record_size a" and enc: "dmap_array_to_bytes a = Inr bs"
    and sz: "int (length bs) \<le> record_size"
  shows "read_array (pre @ bs @ post) record_size (int (length pre))
           = Inr (a\<lparr>a_shape := rev (a_shape a)\<rparr>, int (length pre) + int (length bs))"
proof -
  from va obtain w where
    nm: "ascii_text (a_name a)" and nd: "a_data_type a \<noteq> DMAP"
    and tb: "DMAP_DATA_TYPES (a_data_type a) = Some (a_data_type_fmt a, w)"
    and ns: "a_data_type_fmt a \<noteq> ''s''" and nc: "a_data_type_fmt a \<noteq> ''c''"
    and dim: "a_dimension a = int (length (a_shape a))" and sne: "a_shape a \<noteq> []"
    and pos: "a_name a \<noteq> py_str ''slist'' \<longrightarrow> (\<forall>x \<in> set (a_shape a). 0 < x)"
    and nonneg: "\<forall>x \<in> set (a_shape a). 0 \<le> x"
    and small: "\<forall>x \<in> set (a_shape a). x < record_size"
    and dt: "nd_dtype (a_value a) = DNum (a_data_type_fmt a)"
    and len: "int (length (nd_bytes (a_value a))) = prod_list (a_shape a) * w"
    by (auto simp: valid_array_def list_all_iff split: if_splits option.splits) force+
  from DMAP_DATA_TYPES_numeric [OF tb nd ns nc]
  have w: "0 < w" "np_itemsize (a_data_type_fmt a) = Some (nat w)" by simp_all
  let ?nb = "map of_nat (a_name a) @ [0] :: byte list"
  let ?tb = "of_nat (nat (a_data_type a)) :: byte"
  let ?db = "le_bytes 4 (a_dimension a)"
  let ?sb = "concat (map (le_bytes 4) (a_shape a))"
  let ?data = "nd_bytes (a_value a)"
  from enc nm tb obtain sb where
    drange: "- 2147483648 \<le> a_dimension a \<and> a_dimension a < 2147483648"
    and sbe: "shape_to_bytes (a_shape a) [] = Inr sb"
    and bs0: "bs = ?nb @ [?tb] @ ?db @ sb @ ?data"
    by (auto simp: dmap_array_to_bytes_def cstring_bytes_ascii type_code_bytes_table Let_def
          struct_pack_i split: sum.splits)
  from shape_to_bytes_eq [OF sbe] have sb: "sb = ?sb"
    and srange: "\<forall>d \<in> set (a_shape a). - 2147483648 \<le> d \<and> d < 2147483648"
    by simp_all
  have bs: "bs = ?nb @ [?tb] @ ?db @ ?sb @ ?data" using bs0 sb by simp
  have lsb: "length ?sb = 4 * length (a_shape a)"
    by (induction "a_shape a") (simp_all add: length_concat comp_def sum_list_triv)
  have lbs: "int (length bs) = int (length (a_name a)) + 6 + 4 * int (length (a_shape a))
               + int (length ?data)"
    using bs lsb by simp
  let ?buf = "pre @ bs @ post"
  let ?c1 = "int (length pre) + int (length (a_name a)) + 1"
  have buf1: "?buf = pre @ ?nb @ (?tb # ?db @ ?sb @ ?data @ post)" using bs by simp
  have r1: "read_name ?buf (int (length pre)) = Inr (a_name a, ?c1)"
    unfolding buf1 using read_name_ascii [OF nm, of pre "?tb # ?db @ ?sb @ ?data @ post"]
    by simp
  let ?pre2 = "pre @ ?nb"
  have buf2: "?buf = ?pre2 @ ?tb # (?db @ ?sb @ ?data @ post)" using bs by simp
  have l2: "int (length ?pre2) = ?c1" by simp
  have ut: "uint ?tb = a_data_type a"
    using DMAP_DATA_TYPES_range [OF tb] by (intro uint_byte_small) auto
  have r2: "read_type ?buf ?c1 = Inr (a_data_type a, ?c1 + 1)"
    unfolding buf2 using read_type_at [of ?pre2 ?tb "?db @ ?sb @ ?data @ post"] ut
    by (simp add: l2 [symmetric])
  let ?pre3 = "pre @ ?nb @ [?tb]"
  have buf3: "?buf = ?pre3 @ ?db @ (?sb @ ?data @ post)" using bs by simp
  have l3: "int (length ?pre3) = ?c1 + 1" by simp
  have "read_int (?pre3 @ ?db @ (?sb @ ?data @ post)) (int (length ?pre3) + int 0)
          = Inr (le_signed (take 4 (drop 0 ?db)), int (length ?pre3) + int 0 + 4)"
    by (rule read_int_in_block) simp
  moreover have "le_signed ?db = a_dimension a"
    using drange by (intro le_signed_le_bytes_4) auto
  ultimately have r3: "read_int ?buf (?c1 + 1) = Inr (a_dimension a, ?c1 + 5)"
    unfolding buf3 by (simp add: l3 [symmetric])
  let ?pre4 = "pre @ ?nb @ [?tb] @ ?db"
  have buf4: "?buf = ?pre4 @ ?sb @ (?data @ post)" using bs by simp
  have l4: "int (length ?pre4) = ?c1 + 5" by simp
  have "read_shape (?pre4 @ ?sb @ (?data @ post)) (length (a_shape a)) (int (length ?pre4))
          = Inr (a_shape a, int (length ?pre4) + 4 * int (length (a_shape a)))"
    by (rule read_shape_packed [OF srange])
  then have r4: "read_shape ?buf (nat (a_dimension a)) (?c1 + 5)
                   = Inr (a_shape a, ?c1 + 5 + 4 * int (length (a_shape a)))"
    unfolding buf4 using dim by (simp add: l4 [symmetric])
  let ?pre5 = "pre @ ?nb @ [?tb] @ ?db @ ?sb"
  have buf5: "?buf = ?pre5 @ ?data @ post" using bs by simp
  have l5: "int (length ?pre5) = ?c1 + 5 + 4 * int (length (a_shape a))"
    using lsb by simp
  have p0: "0 \<le> prod_list (a_shape a)" using nonneg by (rule prod_list_nonneg)
  have "np_frombuffer (?pre5 @ ?data @ post) (a_data_type_fmt a) (prod_list (a_shape a))
          (int (length ?pre5)) = Inr \<lparr>nd_dtype = DNum (a_data_type_fmt a), nd_bytes = ?data\<rparr>"
    by (rule np_frombuffer_in [OF p0 len w(2,1)])
  moreover have "\<lparr>nd_dtype = DNum (a_data_type_fmt a), nd_bytes = ?data\<rparr> = a_value a"
    using dt by simp
  ultimately have nf0: "np_frombuffer (?pre5 @ ?data @ post) (a_data_type_fmt a)
          (prod_list (a_shape a)) (int (length ?pre5)) = Inr (a_value a)"
    by (simp only:)
  have nf: "np_frombuffer ?buf (a_data_type_fmt a) (prod_list (a_shape a))
              (?c1 + 5 + 4 * int (length (a_shape a))) = Inr (a_value a)"
    using nf0 by (simp only: buf5 l5)
  have fin: "?c1 + 5 + 4 * int (length (a_shape a)) + prod_list (a_shape a) * w
               = int (length pre) + int (length bs)"
    using len lbs by simp
  have r5: "read_numerical_array ?buf (a_data_type_fmt a) (prod_list (a_shape a)) w
                         (?c1 + 5 + 4 * int (length (a_shape a)))
                       = Inr (a_value a, int (length pre) + int (length bs))"
    unfolding read_numerical_array_def nf fin by simp
  have c1: "bytes_check (a_dimension a) record_size = None"
    using dim lbs sz by (simp add: bytes_check_def)
  have c2: "zero_negative_check (a_dimension a) = None"
    using dim sne by (simp add: zero_negative_check_def)
  have c3: "\<not> ((\<exists>x \<in> set (rev (a_shape a)). x \<le> 0) \<and> a_name a \<noteq> py_str ''slist'')"
    using pos by auto
  have c4: "\<not> (\<exists>x \<in> set (rev (a_shape a)). x \<ge> record_size)"
    using small by auto
  have pw: "prod_list (a_shape a) \<le> prod_list (a_shape a) * w"
    using p0 w(1) by (simp add: mult_le_cancel_left1)
  have c6: "bytes_check (prod_list (rev (a_shape a)) * w) record_size = None"
    using len lbs sz by (simp add: bytes_check_def)
  have c5: "bytes_check (prod_list (rev (a_shape a))) record_size = None"
    using pw len lbs sz by (simp add: bytes_check_def)
  show ?thesis
    using r1 r2 r3 r4 r5 c1 c2 c3 c4 c5 c6 tb ns nc nd dim
    by (simp add: read_array_def check_data_type_def Let_def)
qed

subsection \<open>The order of the dimensions\<close>

text \<open>
  Claim C2. The reader reverses the dimensions it reads, so the wire holds them in the
  reverse of the logical order, and the writer is to mirror that. It does not:
  \<open>dmap_array_to_bytes\<close> writes \<open>array.shape\<close> front to back. The array \<open>data\<close> of
  six 16-bit integers with the logical shape \<open>[2, 3]\<close> is written with 2 and then 3 on
  the wire, and reading these bytes gives the shape \<open>[3, 2]\<close>. (In general an array
  that is written and read back has its shape reversed: lemma \<open>read_array_roundtrip\<close>.)
\<close>

theorem dmap_array_shape_not_reversed:
  "dmap_array_to_bytes
     \<lparr>a_name = [100, 97, 116, 97],
        a_value = \<lparr>nd_dtype = DNum ''h'', nd_bytes = [1, 0, 2, 0, 3, 0, 4, 0, 5, 0, 6, 0]\<rparr>,
        a_data_type = 2, a_data_type_fmt = ''h'', a_dimension = 2, a_shape = [2, 3]\<rparr>
   = Inr [100, 97, 116, 97, 0, 2, 2, 0, 0, 0, 2, 0, 0, 0, 3, 0, 0, 0,
          1, 0, 2, 0, 3, 0, 4, 0, 5, 0, 6, 0]
   \<and> read_array
       [100, 97, 116, 97, 0, 2, 2, 0, 0, 0, 2, 0, 0, 0, 3, 0, 0, 0,
        1, 0, 2, 0, 3, 0, 4, 0, 5, 0, 6, 0] 46 0
     = Inr (\<lparr>a_name = [100, 97, 116, 97],
              a_value = \<lparr>nd_dtype = DNum ''h'',
                          nd_bytes = [1, 0, 2, 0, 3, 0, 4, 0, 5, 0, 6, 0]\<rparr>,
              a_data_type = 2, a_data_type_fmt = ''h'', a_dimension = 2, a_shape = [3, 2]\<rparr>,
            30)"
  by code_simp

subsection \<open>Dimensions of length zero\<close>

lemma scan_nul_ge: "scan_nul buf c k = Inr k' \<Longrightarrow> k \<le> k'"
proof (induction buf c k rule: scan_nul.induct)
  case (1 buf cursor k)
  from "1.prems" show ?case
    by (subst (asm) scan_nul.simps) (auto split: option.splits if_splits dest: "1.IH")
qed

lemma read_name_Inr: "read_name buf c = Inr (t, c') \<Longrightarrow> c < c'"
  by (auto simp: read_name_def read_data_def Let_def
        split: sum.splits option.splits pyval.splits if_splits dest: scan_nul_ge)

lemma read_type_Inr: "read_type buf c = Inr (t, c') \<Longrightarrow> c' = c + 1"
  by (auto simp: read_type_def read_data_def Let_def
        split: sum.splits option.splits pyval.splits if_splits list.splits)

lemma read_shape_Inr:
  "read_shape buf n c = Inr (ds, c') \<Longrightarrow>
   c' = c + 4 * int n \<and> length ds = n \<and> (0 < n \<longrightarrow> c' \<le> int (length buf))"
proof (induction n arbitrary: c ds)
  case 0
  then show ?case by simp
next
  case (Suc n)
  from Suc.prems obtain d c1 ds' where
    a: "read_int buf c = Inr (d, c1)" and b: "read_shape buf n c1 = Inr (ds', c')"
    and c: "ds = d # ds'"
    by (auto split: sum.splits)
  from read_int_Inr [OF a] Suc.IH [OF b] c show ?case
    by (cases n) auto
qed

text \<open>
  Claim C3, as amended. \<open>read_array\<close> never returns an array with a dimension
  \<open>\<le> 0\<close> unless its name is \<open>slist\<close>: once the name, the type code, the number of
  dimensions and the dimensions have been read, a dimension \<open>\<le> 0\<close> under another name
  ends the read with an error (the \<open>KeyError\<close> raised while the message of the intended
  error is built). An array named \<open>slist\<close> with a dimension of length 0 is accepted:
  for a numeric type, and every dimension below the block size, the array is returned
  with no element. Nothing is said of the writer, whose validation does not look at shapes.
\<close>

theorem read_array_zero_dimension:
  "(\<forall>a c'. read_array buf record_size c = Inr (a, c') \<and> a_name a \<noteq> py_str ''slist''
       \<longrightarrow> (\<forall>x \<in> set (a_shape a). 0 < x))
   \<and> (\<forall>array_name c1 array_type c2 fmt w array_dimension c3 wire_shape c4.
        read_name buf c = Inr (array_name, c1)
        \<and> read_type buf c1 = Inr (array_type, c2)
        \<and> DMAP_DATA_TYPES array_type = Some (fmt, w)
        \<and> read_int buf c2 = Inr (array_dimension, c3)
        \<and> 0 < array_dimension \<and> array_dimension \<le> record_size
        \<and> read_shape buf (nat array_dimension) c3 = Inr (wire_shape, c4)
        \<longrightarrow>
          ((\<exists>x \<in> set wire_shape. x \<le> 0) \<and> array_name \<noteq> py_str ''slist''
             \<longrightarrow> read_array buf record_size c = Inl KeyError)
        \<and> (0 \<in> set wire_shape \<and> array_name = py_str ''slist''
             \<and> (\<forall>x \<in> set wire_shape. x < record_size)
             \<and> array_type \<noteq> DMAP \<and> fmt \<noteq> ''s'' \<and> fmt \<noteq> ''c'' \<and> 0 \<le> c
             \<longrightarrow> read_array buf record_size c =
                   Inr (\<lparr>a_name = array_name,
                          a_value = \<lparr>nd_dtype = DNum fmt, nd_bytes = []\<rparr>,
                          a_data_type = array_type, a_data_type_fmt = fmt,
                          a_dimension = array_dimension, a_shape = rev wire_shape\<rparr>, c4)))"
proof (intro conjI allI impI)
  fix a c'
  assume "read_array buf record_size c = Inr (a, c') \<and> a_name a \<noteq> py_str ''slist''"
  then show "\<forall>x \<in> set (a_shape a). 0 < x"
    unfolding read_array_def Let_def
    by (auto split: sum.splits option.splits if_splits prod.splits simp: not_le)
next
  fix array_name c1 array_type c2 fmt w array_dimension c3 wire_shape c4
  assume h: "read_name buf c = Inr (array_name, c1)
        \<and> read_type buf c1 = Inr (array_type, c2)
        \<and> DMAP_DATA_TYPES array_type = Some (fmt, w)
        \<and> read_int buf c2 = Inr (array_dimension, c3)
        \<and> 0 < array_dimension \<and> array_dimension \<le> record_size
        \<and> read_shape buf (nat array_dimension) c3 = Inr (wire_shape, c4)"
  from h read_shape_Inr [of buf "nat array_dimension" c3 wire_shape c4]
  have len: "int (length (rev wire_shape)) = array_dimension" by auto
  {
    assume "(\<exists>x \<in> set wire_shape. x \<le> 0) \<and> array_name \<noteq> py_str ''slist''"
    with h len show "read_array buf record_size c = Inl KeyError"
      by (simp add: read_array_def check_data_type_def bytes_check_def zero_negative_check_def
            Let_def)
  }
  {
    assume z: "0 \<in> set wire_shape \<and> array_name = py_str ''slist''
             \<and> (\<forall>x \<in> set wire_shape. x < record_size)
             \<and> array_type \<noteq> DMAP \<and> fmt \<noteq> ''s'' \<and> fmt \<noteq> ''c'' \<and> 0 \<le> c"
    from h z have num: "DMAP_DATA_TYPES array_type = Some (fmt, w)" "array_type \<noteq> DMAP"
      "fmt \<noteq> ''s''" "fmt \<noteq> ''c''" by simp_all
    from DMAP_DATA_TYPES_numeric [OF num] have w: "np_itemsize fmt = Some (nat w)" by simp
    from z have p: "prod_list (rev wire_shape) = 0" by (simp add: prod_list_zero_iff)
    from h z have c4: "0 \<le> c4" "c4 \<le> int (length buf)"
      using read_name_Inr [of buf c array_name c1] read_type_Inr [of buf c1 array_type c2]
        read_int_Inr [of buf c2 array_dimension c3]
        read_shape_Inr [of buf "nat array_dimension" c3 wire_shape c4]
      by auto
    have nf: "np_frombuffer buf fmt 0 c4 = Inr \<lparr>nd_dtype = DNum fmt, nd_bytes = []\<rparr>"
      using c4 w by (simp add: np_frombuffer_def Let_def)
    have ok: "\<not> (\<exists>x \<in> set (rev wire_shape). x \<ge> record_size)"
      using z by auto
    from h z len p nf ok
    show "read_array buf record_size c =
                   Inr (\<lparr>a_name = array_name,
                          a_value = \<lparr>nd_dtype = DNum fmt, nd_bytes = []\<rparr>,
                          a_data_type = array_type, a_data_type_fmt = fmt,
                          a_dimension = array_dimension, a_shape = rev wire_shape\<rparr>, c4)"
      by (simp add: read_array_def check_data_type_def bytes_check_def zero_negative_check_def
            read_numerical_array_def Let_def)
  }
qed


text \<open>The witness: the array \<open>slist\<close> of 16-bit integers with the one dimension 0.\<close>

theorem read_array_zero_dimension_witness:
  "read_name [115, 108, 105, 115, 116, 0, 2, 1, 0, 0, 0, 0, 0, 0, 0] 0
     = Inr (py_str ''slist'', 6)
   \<and> read_shape [115, 108, 105, 115, 116, 0, 2, 1, 0, 0, 0, 0, 0, 0, 0] (nat 1) 11
     = Inr ([0], 15)
   \<and> read_array [115, 108, 105, 115, 116, 0, 2, 1, 0, 0, 0, 0, 0, 0, 0] 40 0
     = Inr (\<lparr>a_name = py_str ''slist'',
              a_value = \<lparr>nd_dtype = DNum ''h'', nd_bytes = []\<rparr>,
              a_data_type = 2, a_data_type_fmt = ''h'',
              a_dimension = 1, a_shape = rev [0]\<rparr>, 15)"
proof -
  let ?buf = "[115, 108, 105, 115, 116, 0, 2, 1, 0, 0, 0, 0, 0, 0, 0] :: byte list"
  have h1: "read_name ?buf 0 = Inr (py_str ''slist'', 6)" by code_simp
  have h2: "read_type ?buf 6 = Inr (2, 7)" by code_simp
  have h3: "DMAP_DATA_TYPES 2 = Some (''h'', 2)" by code_simp
  have h4: "read_int ?buf 7 = Inr (1, 11)" by code_simp
  have h5: "read_shape ?buf (nat 1) 11 = Inr ([0], 15)" by code_simp
  have h6: "(2::int) \<noteq> DMAP" by (simp add: DMAP_def)
  from read_array_zero_dimension [of ?buf 40 0, THEN conjunct2, rule_format,
         of "py_str ''slist''" 6 2 7 "''h''" 2 1 11 "[0]" 15, THEN conjunct2]
       h1 h2 h3 h4 h5 h6
  have "read_array ?buf 40 0
     = Inr (\<lparr>a_name = py_str ''slist'',
              a_value = \<lparr>nd_dtype = DNum ''h'', nd_bytes = []\<rparr>,
              a_data_type = 2, a_data_type_fmt = ''h'',
              a_dimension = 1, a_shape = rev [0]\<rparr>, 15)"
    by simp
  with h1 h5 show ?thesis by simp
qed

text \<open>
  The claim as it was stated has the validation of the writer apply the same rule. A
  record whose array \<open>p\<close> has the shape \<open>[0]\<close> passes the three checks of a schema
  with the fields \<open>a\<close> and \<open>p\<close> and is written; the reader then refuses the bytes.
\<close>

theorem encode_accepts_zero_dimension:
  "write_rawacf_stream [([97], ''h''), ([112], ''h'')]
     \<lparr>dmap_records = [], dmap_bytearr = [], filename = []\<rparr>
     [[([97], Scalar \<lparr>s_name = [97], s_value = PInt 7, s_data_type = 2,
                       s_data_type_fmt = ''h''\<rparr>),
       ([112], Array \<lparr>a_name = [112],
                       a_value = \<lparr>nd_dtype = DNum ''h'', nd_bytes = []\<rparr>,
                       a_data_type = 2, a_data_type_fmt = ''h'',
                       a_dimension = 1, a_shape = [0]\<rparr>)]]
   = Inr (\<lparr>dmap_records =
             [[([97], Scalar \<lparr>s_name = [97], s_value = PInt 7, s_data_type = 2,
                               s_data_type_fmt = ''h''\<rparr>),
               ([112], Array \<lparr>a_name = [112],
                               a_value = \<lparr>nd_dtype = DNum ''h'', nd_bytes = []\<rparr>,
                               a_data_type = 2, a_data_type_fmt = ''h'',
                               a_dimension = 1, a_shape = [0]\<rparr>)]],
            dmap_bytearr =
              [1, 0, 1, 0, 32, 0, 0, 0, 1, 0, 0, 0, 1, 0, 0, 0, 97, 0, 2, 7, 0,
               112, 0, 2, 1, 0, 0, 0, 0, 0, 0, 0],
            filename = []\<rparr>,
          [1, 0, 1, 0, 32, 0, 0, 0, 1, 0, 0, 0, 1, 0, 0, 0, 97, 0, 2, 7, 0,
           112, 0, 2, 1, 0, 0, 0, 0, 0, 0, 0])
   \<and> dmap_read_stream
        [1, 0, 1, 0, 32, 0, 0, 0, 1, 0, 0, 0, 1, 0, 0, 0, 97, 0, 2, 7, 0,
         112, 0, 2, 1, 0, 0, 0, 0, 0, 0, 0]
      = Inl KeyError"
  by code_simp

subsection \<open>Records\<close>

lemma record_items_to_bytes_eq:
  "record_items_to_bytes r data ns na = Inr (data', ns', na') \<Longrightarrow>
   (\<forall>it \<in> set r. item_to_bytes it = Inr (item_bytes it))
   \<and> data' = data @ concat (map item_bytes r)
   \<and> ns' = ns + int (length (filter is_scalar r))
   \<and> na' = na + int (length (filter is_array r))"
proof (induction r arbitrary: data ns na)
  case Nil
  then show ?case by simp
next
  case (Cons it r)
  obtain k f where it: "it = (k, f)" by (cases it)
  show ?case
  proof (cases f)
    case (Scalar s)
    with Cons.prems it obtain b where
      b: "dmap_scalar_to_bytes s = Inr b"
      and rest: "record_items_to_bytes r (data @ b) (ns + 1) na = Inr (data', ns', na')"
      by (auto split: sum.splits)
    from Cons.IH [OF rest] b it Scalar show ?thesis
      by (simp add: item_bytes_def)
  next
    case (Array a)
    with Cons.prems it obtain b where
      b: "dmap_array_to_bytes a = Inr b"
      and rest: "record_items_to_bytes r (data @ b) ns (na + 1) = Inr (data', ns', na')"
      by (auto split: sum.splits)
    from Cons.IH [OF rest] b it Array show ?thesis
      by (simp add: item_bytes_def)
  next
    case NotDmap
    with Cons.prems it show ?thesis by simp
  qed
qed

lemma odict_set_fresh: "k \<notin> fst ` set ps \<Longrightarrow> odict_set ps k v = ps @ [(k, v)]"
  by (induction ps) auto

lemma read_scalars_roundtrip:
  assumes "\<forall>it \<in> set S. is_scalar it \<and> valid_item rs it \<and> item_to_bytes it = Inr (item_bytes it)"
    and "distinct (map fst S)" and "fst ` set S \<inter> fst ` set acc = {}"
  shows "read_scalars (pre @ concat (map item_bytes S) @ post) (length S) acc (int (length pre))
           = Inr (acc @ S, int (length pre) + int (length (concat (map item_bytes S))))"
  using assms
proof (induction S arbitrary: pre acc)
  case Nil
  then show ?case by simp
next
  case (Cons it S)
  from Cons.prems(1) obtain s where it: "it = (s_name s, Scalar s)" and vs: "valid_scalar s"
    and enc: "dmap_scalar_to_bytes s = Inr (item_bytes it)"
    by (cases it; cases "snd it") auto
  let ?b = "item_bytes it"
  have rd: "read_scalar (pre @ ?b @ (concat (map item_bytes S) @ post)) (int (length pre))
              = Inr (s, int (length pre) + int (length ?b))"
    by (rule read_scalar_roundtrip [OF vs enc])
  have fresh: "s_name s \<notin> fst ` set acc"
    using Cons.prems(3) it by auto
  have ih: "read_scalars ((pre @ ?b) @ concat (map item_bytes S) @ post) (length S) (acc @ [it])
              (int (length (pre @ ?b)))
            = Inr ((acc @ [it]) @ S,
                   int (length (pre @ ?b)) + int (length (concat (map item_bytes S))))"
  proof (rule Cons.IH)
    show "\<forall>it \<in> set S. is_scalar it \<and> valid_item rs it \<and> item_to_bytes it = Inr (item_bytes it)"
      using Cons.prems(1) by simp
    show "distinct (map fst S)" using Cons.prems(2) by simp
    show "fst ` set S \<inter> fst ` set (acc @ [it]) = {}"
      using Cons.prems(2,3) by auto
  qed
  show ?case
    using rd ih fresh it by (simp add: odict_set_fresh add.assoc)
qed

lemma fst_reversed_shape [simp]: "fst (reversed_shape it) = fst it"
  by (cases it; cases "snd it") auto

lemma read_arrays_roundtrip:
  assumes "\<forall>it \<in> set A. is_array it \<and> valid_item rs it \<and> item_to_bytes it = Inr (item_bytes it)
             \<and> int (length (item_bytes it)) \<le> rs"
    and "distinct (map fst A)" and "fst ` set A \<inter> fst ` set acc = {}"
  shows "read_arrays (pre @ concat (map item_bytes A) @ post) rs (length A) acc (int (length pre))
           = Inr (acc @ map reversed_shape A,
                  int (length pre) + int (length (concat (map item_bytes A))))"
  using assms
proof (induction A arbitrary: pre acc)
  case Nil
  then show ?case by simp
next
  case (Cons it A)
  from Cons.prems(1) obtain a where it: "it = (a_name a, Array a)" and va: "valid_array rs a"
    and enc: "dmap_array_to_bytes a = Inr (item_bytes it)"
    and sz: "int (length (item_bytes it)) \<le> rs"
    by (cases it; cases "snd it") auto
  let ?b = "item_bytes it"
  let ?a' = "a\<lparr>a_shape := rev (a_shape a)\<rparr>"
  have rd: "read_array (pre @ ?b @ (concat (map item_bytes A) @ post)) rs (int (length pre))
              = Inr (?a', int (length pre) + int (length ?b))"
    by (rule read_array_roundtrip [OF va enc sz])
  have fresh: "a_name a \<notin> fst ` set acc"
    using Cons.prems(3) it by auto
  have rit: "reversed_shape it = (a_name a, Array ?a')" using it by simp
  have ih: "read_arrays ((pre @ ?b) @ concat (map item_bytes A) @ post) rs (length A)
              (acc @ [reversed_shape it]) (int (length (pre @ ?b)))
            = Inr ((acc @ [reversed_shape it]) @ map reversed_shape A,
                   int (length (pre @ ?b)) + int (length (concat (map item_bytes A))))"
  proof (rule Cons.IH)
    show "\<forall>it \<in> set A. is_array it \<and> valid_item rs it \<and> item_to_bytes it = Inr (item_bytes it)
             \<and> int (length (item_bytes it)) \<le> rs"
      using Cons.prems(1) by simp
    show "distinct (map fst A)" using Cons.prems(2) by simp
    show "fst ` set A \<inter> fst ` set (acc @ [reversed_shape it]) = {}"
      using Cons.prems(2,3) by auto
  qed
  show ?case
    using rd ih fresh rit by (simp add: odict_set_fresh add.assoc)
qed


lemma type_code_bytes_length: "type_code_bytes t = Inr bs \<Longrightarrow> length bs = 1"
  by (auto simp: type_code_bytes_def split: sum.splits if_splits)

lemma item_to_bytes_nonempty: "item_to_bytes it = Inr b \<Longrightarrow> 1 \<le> length b"
proof (cases it)
  case (Pair k f)
  assume e: "item_to_bytes it = Inr b"
  show ?thesis
  proof (cases f)
    case (Scalar s)
    with e Pair show ?thesis
      by (auto simp: dmap_scalar_to_bytes_def Let_def split: sum.splits
               dest!: type_code_bytes_length)
  next
    case (Array a)
    with e Pair show ?thesis
      by (auto simp: dmap_array_to_bytes_def Let_def split: sum.splits
               dest!: type_code_bytes_length)
  next
    case NotDmap
    with e Pair show ?thesis by simp
  qed
qed

lemma length_le_concat:
  "\<forall>x \<in> set xs. 1 \<le> length (f x) \<Longrightarrow> length xs \<le> length (concat (map f xs))"
  by (induction xs) auto

lemma length_item_le_concat:
  "x \<in> set xs \<Longrightarrow> length (f x) \<le> length (concat (map f xs))"
  by (induction xs) auto

lemma dmap_record_to_bytes_eq:
  assumes "dmap_record_to_bytes acc r = Inr out"
  shows "out = acc @ le_bytes 4 65537 @ le_bytes 4 (block_size_of r)
                 @ le_bytes 4 (int (length (filter is_scalar r)))
                 @ le_bytes 4 (int (length (filter is_array r)))
                 @ concat (map item_bytes r)
         \<and> (\<forall>it \<in> set r. item_to_bytes it = Inr (item_bytes it))
         \<and> block_size_of r < 2147483648"
proof -
  from assms obtain data ns na where
    items: "record_items_to_bytes r [] 0 0 = Inr (data, ns, na)"
    by (auto simp: dmap_record_to_bytes_def Let_def split: sum.splits)
  from record_items_to_bytes_eq [OF items]
  have d: "data = concat (map item_bytes r)" "ns = int (length (filter is_scalar r))"
    "na = int (length (filter is_array r))"
    and ok: "\<forall>it \<in> set r. item_to_bytes it = Inr (item_bytes it)"
    by simp_all
  from assms items d ok show ?thesis
    by (auto simp: dmap_record_to_bytes_def Let_def block_size_of_def struct_pack_i
             split: sum.splits)
qed

lemma record_bytes_eq:
  assumes "dmap_record_to_bytes acc r = Inr out"
  shows "out = acc @ record_bytes r \<and> dmap_record_to_bytes [] r = Inr (record_bytes r)"
proof -
  from assms have "dmap_record_to_bytes [] r = Inr (drop (length acc) out)" "out = acc @ drop (length acc) out"
    by (auto simp: dmap_record_to_bytes_def Let_def split: sum.splits)
  then show ?thesis by (simp add: record_bytes_def)
qed

lemma length_record_bytes:
  assumes "dmap_record_to_bytes [] r = Inr b"
  shows "int (length b) = block_size_of r"
  using dmap_record_to_bytes_eq [OF assms] by (simp add: block_size_of_def)

lemma valid_record_split:
  assumes "valid_record r"
  obtains S A where "r = S @ A" "S \<noteq> []" "A \<noteq> []"
    "\<forall>it \<in> set S. is_scalar it" "\<forall>it \<in> set A. is_array it"
    "filter is_scalar r = S" "filter is_array r = A"
proof -
  let ?S = "takeWhile is_scalar r" and ?A = "dropWhile is_scalar r"
  have na: "is_array it \<Longrightarrow> \<not> is_scalar it" for it
    by (cases it; cases "snd it") auto
  from assms have a: "\<forall>it \<in> set ?A. is_array it" and s: "\<forall>it \<in> set ?S. is_scalar it"
    by (auto simp: valid_record_def list_all_iff dest: set_takeWhileD)
  have "filter is_scalar (?S @ ?A) = ?S"
    unfolding filter_append using a s na by (simp add: filter_id_conv filter_empty_conv)
  then have fs: "filter is_scalar r = ?S" by simp
  have "filter is_array (?S @ ?A) = ?A"
    unfolding filter_append using a s na by (auto simp add: filter_id_conv filter_empty_conv)
  then have fa: "filter is_array r = ?A" by simp
  have ne: "?S \<noteq> []" "?A \<noteq> []"
    using assms by (simp_all add: valid_record_def)
  have "r = ?S @ ?A" by simp
  then show ?thesis
    using ne s a fs fa by (rule that)
qed

lemma reversed_shape_scalar: "is_scalar it \<Longrightarrow> reversed_shape it = it"
  by (cases it; cases "snd it") auto

lemma read_record_roundtrip:
  assumes vr: "valid_record r" and enc: "dmap_record_to_bytes [] r = Inr b"
  shows "read_record (pre @ b @ post) (int (length pre))
           = Inr (map reversed_shape r, int (length pre) + int (length b))"
proof -
  from valid_record_split [OF vr] obtain S A where
    r: "r = S @ A" and ne: "S \<noteq> []" "A \<noteq> []"
    and sc: "\<forall>it \<in> set S. is_scalar it" and ar: "\<forall>it \<in> set A. is_array it"
    and fs: "filter is_scalar r = S" and fa: "filter is_array r = A"
    by blast
  let ?bsz = "block_size_of r"
  let ?h1 = "le_bytes 4 65537" and ?h2 = "le_bytes 4 ?bsz"
  let ?h3 = "le_bytes 4 (int (length S))" and ?h4 = "le_bytes 4 (int (length A))"
  let ?sb = "concat (map item_bytes S)" and ?ab = "concat (map item_bytes A)"
  note e = dmap_record_to_bytes_eq [OF enc, unfolded fs fa]
  have "concat (map item_bytes r) = ?sb @ ?ab" using r by simp
  with e have b: "b = ?h1 @ ?h2 @ ?h3 @ ?h4 @ ?sb @ ?ab"
    by simp
  from e have ok: "\<forall>it \<in> set r. item_to_bytes it = Inr (item_bytes it)"
    and rng: "?bsz < 2147483648"
    by simp_all
  have lb: "int (length b) = ?bsz" by (rule length_record_bytes [OF enc])
  have bdef: "?bsz = int (length ?sb) + int (length ?ab) + 16"
    using r by (simp add: block_size_of_def)
  have items1: "\<forall>it \<in> set r. 1 \<le> length (item_bytes it)"
    using ok item_to_bytes_nonempty by blast
  have cnt: "int (length S) + int (length A) \<le> ?bsz"
    using length_le_concat [OF items1] r by (simp add: block_size_of_def)
  let ?buf = "pre @ b @ post"
  have v2: "le_signed ?h2 = ?bsz"
    using rng bdef by (intro le_signed_le_bytes_4) auto
  have v3: "le_signed ?h3 = int (length S)"
    using rng cnt by (intro le_signed_le_bytes_4) auto
  have v4: "le_signed ?h4 = int (length A)"
    using rng cnt by (intro le_signed_le_bytes_4) auto
  have "read_int ?buf (int (length pre) + int 4)
          = Inr (le_signed (take 4 (drop 4 b)), int (length pre) + int 4 + 4)"
    by (rule read_int_in_block) (simp add: b)
  then have r1: "read_int ?buf (int (length pre) + 4) = Inr (?bsz, int (length pre) + 8)"
    using v2 by (simp add: b)
  have "read_int ?buf (int (length pre) + int 8)
          = Inr (le_signed (take 4 (drop 8 b)), int (length pre) + int 8 + 4)"
    by (rule read_int_in_block) (simp add: b)
  then have r2: "read_int ?buf (int (length pre) + 8) = Inr (int (length S), int (length pre) + 12)"
    using v3 by (simp add: b)
  have "read_int ?buf (int (length pre) + int 12)
          = Inr (le_signed (take 4 (drop 12 b)), int (length pre) + int 12 + 4)"
    by (rule read_int_in_block) (simp add: b)
  then have r3: "read_int ?buf (int (length pre) + 12) = Inr (int (length A), int (length pre) + 16)"
    using v4 by (simp add: b)
  have vi: "\<forall>it \<in> set r. valid_item ?bsz it"
    using vr by (simp add: valid_record_def list_all_iff)
  have dist: "distinct (map fst S)" "distinct (map fst A)" "fst ` set S \<inter> fst ` set A = {}"
    using vr r by (auto simp: valid_record_def)
  let ?pre1 = "pre @ ?h1 @ ?h2 @ ?h3 @ ?h4"
  have buf1: "?buf = ?pre1 @ ?sb @ (?ab @ post)" by (simp add: b)
  have l1: "int (length ?pre1) = int (length pre) + 16" by simp
  have "read_scalars (?pre1 @ ?sb @ (?ab @ post)) (length S) [] (int (length ?pre1))
          = Inr ([] @ S, int (length ?pre1) + int (length ?sb))"
  proof (rule read_scalars_roundtrip)
    show "\<forall>it \<in> set S. is_scalar it \<and> valid_item ?bsz it \<and> item_to_bytes it = Inr (item_bytes it)"
      using sc vi ok r by auto
    show "distinct (map fst S)" by (rule dist)
    show "fst ` set S \<inter> fst ` set [] = {}" by simp
  qed
  then have r4: "read_scalars ?buf (length S) [] (int (length pre) + 16)
                   = Inr (S, int (length pre) + 16 + int (length ?sb))"
    by (simp only: buf1 l1) simp
  let ?pre2 = "pre @ ?h1 @ ?h2 @ ?h3 @ ?h4 @ ?sb"
  have buf2: "?buf = ?pre2 @ ?ab @ post" by (simp add: b)
  have l2: "int (length ?pre2) = int (length pre) + 16 + int (length ?sb)" by simp
  have "read_arrays (?pre2 @ ?ab @ post) ?bsz (length A) S (int (length ?pre2))
          = Inr (S @ map reversed_shape A, int (length ?pre2) + int (length ?ab))"
  proof (rule read_arrays_roundtrip)
    show "\<forall>it \<in> set A. is_array it \<and> valid_item ?bsz it \<and> item_to_bytes it = Inr (item_bytes it)
             \<and> int (length (item_bytes it)) \<le> ?bsz"
    proof
      fix it assume i: "it \<in> set A"
      then have "length (item_bytes it) \<le> length ?ab" by (rule length_item_le_concat)
      then have "int (length (item_bytes it)) \<le> ?bsz" using bdef by simp
      with i ar vi ok r show "is_array it \<and> valid_item ?bsz it \<and> item_to_bytes it = Inr (item_bytes it)
             \<and> int (length (item_bytes it)) \<le> ?bsz"
        by auto
    qed
    show "distinct (map fst A)" by (rule dist)
    show "fst ` set A \<inter> fst ` set S = {}" using dist(3) by blast
  qed
  then have r5: "read_arrays ?buf ?bsz (length A) S (int (length pre) + 16 + int (length ?sb))
                   = Inr (S @ map reversed_shape A,
                          int (length pre) + 16 + int (length ?sb) + int (length ?ab))"
    by (simp only: buf2 l2)
  have res: "S @ map reversed_shape A = map reversed_shape r"
    using r sc by (simp add: reversed_shape_scalar map_idI)
  have pos: "0 < ?bsz" using bdef by simp
  have fin: "int (length pre) + 16 + int (length ?sb) + int (length ?ab) - int (length pre) = ?bsz"
    "int (length pre) + 16 + int (length ?sb) + int (length ?ab) = int (length pre) + int (length b)"
    using lb bdef by simp_all
  have rem: "\<not> ?bsz > int (length ?buf) - (int (length pre) + 8) + 2 * 4"
    using lb by simp
  show ?thesis
    using rem pos ne cnt r4 r5 fin res
    by (simp add: read_record_def Let_def r1 r2 r3 bytes_check_def zero_negative_check_def
             del: length_append)
qed

subsection \<open>Streams\<close>

lemma dmap_records_to_bytes_eq:
  "dmap_records_to_bytes acc rs = Inr out \<Longrightarrow>
   out = acc @ concat (map record_bytes rs)
   \<and> (\<forall>r \<in> set rs. dmap_record_to_bytes [] r = Inr (record_bytes r))"
proof (induction rs arbitrary: acc)
  case Nil
  then show ?case by simp
next
  case (Cons r rs)
  from Cons.prems obtain acc' where
    a: "dmap_record_to_bytes acc r = Inr acc'"
    and b: "dmap_records_to_bytes acc' rs = Inr out"
    by (auto split: sum.splits)
  from record_bytes_eq [OF a] Cons.IH [OF b] show ?case by simp
qed

lemma superDARN_file_structure_to_bytes_raw:
  "superDARN_file_structure_to_bytes fsl acc rs = Inr out \<Longrightarrow>
   dmap_records_to_bytes acc rs = Inr out"
  by (induction rs arbitrary: acc) (auto split: sum.splits option.splits)

lemma record_bytes_length:
  "dmap_record_to_bytes [] r = Inr b \<Longrightarrow> 16 \<le> length b"
  using dmap_record_to_bytes_eq [of "[]" r b] by simp

lemma read_records_skip:
  assumes "\<forall>r \<in> set rs. valid_record r \<and> dmap_record_to_bytes [] r = Inr (record_bytes r)"
  shows "read_records (pre @ concat (map record_bytes rs) @ post) (int (length pre)) acc
           = read_records (pre @ concat (map record_bytes rs) @ post)
               (int (length pre) + int (length (concat (map record_bytes rs))))
               (acc @ map (map reversed_shape) rs)"
  using assms
proof (induction rs arbitrary: pre acc)
  case Nil
  then show ?case by simp
next
  case (Cons r rs)
  let ?b = "record_bytes r"
  let ?rest = "concat (map record_bytes rs)"
  let ?buf = "pre @ concat (map record_bytes (r # rs)) @ post"
  from Cons.prems have vr: "valid_record r" and enc: "dmap_record_to_bytes [] r = Inr ?b"
    by simp_all
  have buf: "?buf = pre @ ?b @ (?rest @ post)" by simp
  have rd: "read_record ?buf (int (length pre))
              = Inr (map reversed_shape r, int (length pre) + int (length ?b))"
    unfolding buf by (rule read_record_roundtrip [OF vr enc])
  have lt: "int (length pre) < int (length ?buf)"
    using record_bytes_length [OF enc] by simp
  have step: "read_records ?buf (int (length pre)) acc
                = read_records ?buf (int (length pre) + int (length ?b))
                    (acc @ [map reversed_shape r])"
    using lt rd by (subst read_records.simps) (simp del: length_append)
  have ih: "read_records ((pre @ ?b) @ ?rest @ post) (int (length (pre @ ?b)))
              (acc @ [map reversed_shape r])
            = read_records ((pre @ ?b) @ ?rest @ post)
                (int (length (pre @ ?b)) + int (length ?rest))
                ((acc @ [map reversed_shape r]) @ map (map reversed_shape) rs)"
    using Cons.prems by (intro Cons.IH) simp
  show ?case
    using step ih by (simp add: add.assoc)
qed

lemma read_records_end:
  "read_records buf (int (length buf)) acc = Inr (acc, int (length buf))"
  by (subst read_records.simps) (simp add: bytes_check_def)

lemma read_stream_roundtrip:
  assumes "rs \<noteq> []" and "\<forall>r \<in> set rs. valid_record r"
    and "dmap_records_to_bytes [] rs = Inr buf"
  shows "dmap_read_stream buf = Inr (map (map reversed_shape) rs)"
proof -
  from dmap_records_to_bytes_eq [OF assms(3)]
  have buf: "buf = concat (map record_bytes rs)"
    and enc: "\<forall>r \<in> set rs. dmap_record_to_bytes [] r = Inr (record_bytes r)"
    by simp_all
  from assms(1) obtain r rs' where rs: "rs = r # rs'" by (cases rs) auto
  with enc have "dmap_record_to_bytes [] r = Inr (record_bytes r)" by simp
  then have "16 \<le> length (record_bytes r)" by (rule record_bytes_length)
  with rs buf have ne: "length buf \<noteq> 0" by auto
  have "read_records ([] @ concat (map record_bytes rs) @ []) (int (length ([] :: byte list))) []
          = read_records ([] @ concat (map record_bytes rs) @ [])
              (int (length ([] :: byte list)) + int (length (concat (map record_bytes rs))))
              ([] @ map (map reversed_shape) rs)"
    using assms(2) enc by (intro read_records_skip) simp
  then have "read_records buf 0 [] = read_records buf (int (length buf)) (map (map reversed_shape) rs)"
    using buf by simp
  then have "read_records buf 0 [] = Inr (map (map reversed_shape) rs, int (length buf))"
    by (simp only: read_records_end)
  with ne show ?thesis
    by (simp add: dmap_read_stream_def DmapRead_init_def)
qed

lemma reversed_shape_symmetric: "symmetric_shape it \<Longrightarrow> reversed_shape it = it"
  by (cases it; cases "snd it") auto

text \<open>
  A floating-point scalar outside the domain of the round trip: the float nearest to 0.1
  is written under the type \<open>FLOAT\<close> with no error, as the binary32 number nearest to
  it, and is read back as that number, 0.10000000149011612. An integer written under the
  type \<open>DOUBLE\<close> is read back as a float.
\<close>

lemma float_scalar_rounded:
  "\<not> float32_exact 4591870180066957722
   \<and> dmap_scalar_to_bytes
        \<lparr>s_name = [120], s_value = PFloat 4591870180066957722, s_data_type = 4,
          s_data_type_fmt = ''f''\<rparr>
      = Inr [120, 0, 4, 205, 204, 204, 61]
   \<and> read_scalar [120, 0, 4, 205, 204, 204, 61] 0
      = Inr (\<lparr>s_name = [120], s_value = PFloat 4591870180174331904, s_data_type = 4,
               s_data_type_fmt = ''f''\<rparr>, 7)"
  by code_simp

lemma int_scalar_read_as_float:
  "dmap_scalar_to_bytes
        \<lparr>s_name = [120], s_value = PInt 7, s_data_type = 8, s_data_type_fmt = ''d''\<rparr>
      = Inr [120, 0, 8, 0, 0, 0, 0, 0, 0, 28, 64]
   \<and> read_scalar [120, 0, 8, 0, 0, 0, 0, 0, 0, 28, 64] 0
      = Inr (\<lparr>s_name = [120], s_value = PFloat 4619567317775286272, s_data_type = 8,
               s_data_type_fmt = ''d''\<rparr>, 11)"
  by code_simp

text \<open>
  Claim C1, as amended. Take a list of records that is not empty, each of them valid
  (every item stored under its own ASCII name with no NUL, names distinct, one scalar or
  more followed by one array or more and nothing else, scalars of a type of the registry
  other than the reserved one with the format of that type, ASCII text and character
  values, and under a floating-point type a float that the type holds exactly: any
  float for \<open>DOUBLE\<close>, a float that is a binary32 number for \<open>FLOAT\<close>, and no
  integer; numeric arrays with \<open>dimension = len(shape)\<close>, positive dimensions (not
  negative for \<open>slist\<close>) below the block size and a buffer of \<open>product(shape)\<close>
  elements of the element type) and with shapes that read the same in both directions.
  Then reading the bytes that \<open>write_dmap_stream\<close> or a product stream writer returns
  for it, from an instance with no bytes yet, gives back the same list of records, with
  every name, type, format, value, dimension count and shape.
\<close>

theorem dmap_round_trip:
  assumes "rs \<noteq> []" and "\<forall>r \<in> set rs. valid_record r \<and> list_all symmetric_shape r"
  shows "(dmap_records self = [] \<and> dmap_bytearr self = []
            \<and> write_dmap_stream self rs = Inr (self', buf)
          \<longrightarrow> dmap_read_stream buf = Inr rs)
       \<and> (dmap_bytearr self = [] \<and> write_product_stream groups self rs = Inr (self', buf)
          \<longrightarrow> dmap_read_stream buf = Inr rs)"
proof -
  have sym: "map (map reversed_shape) rs = rs"
    using assms(2) by (auto simp: list_all_iff reversed_shape_symmetric intro!: map_idI)
  have main: "dmap_read_stream buf = Inr rs" if "dmap_records_to_bytes [] rs = Inr buf"
    using read_stream_roundtrip [OF assms(1) _ that] assms(2) sym by simp
  have 1: "dmap_read_stream buf = Inr rs"
    if "dmap_records self = [] \<and> dmap_bytearr self = []
            \<and> write_dmap_stream self rs = Inr (self', buf)"
    using that assms(1)
    by (intro main) (auto simp: write_dmap_stream_def empty_record_check_def Let_def
                          split: sum.splits if_splits)
  have 2: "dmap_read_stream buf = Inr rs"
    if "dmap_bytearr self = [] \<and> write_product_stream groups self rs = Inr (self', buf)"
    using that assms(1)
    by (intro main superDARN_file_structure_to_bytes_raw [of groups])
       (auto simp: write_product_stream_def empty_record_check_def Let_def
             split: sum.splits if_splits)
  from 1 2 show ?thesis by blast
qed


text \<open>
  The witness is the record of the specification's scenario, the 16-bit scalar
  \<open>stid = 7\<close> and the array \<open>data\<close> of four 32-bit floats with the shape \<open>[2, 2]\<close>,
  with one scalar more, \<open>lat = 1.5\<close> of the type \<open>FLOAT\<close>. Its 67 bytes start with the
  marker 65537 and the block size 67, the payload of 51 bytes and the 16 bytes of the
  header.
\<close>

theorem dmap_round_trip_witness:
  "valid_record
      [([115, 116, 105, 100],
        Scalar \<lparr>s_name = [115, 116, 105, 100], s_value = PInt 7, s_data_type = 2,
                 s_data_type_fmt = ''h''\<rparr>),
       ([108, 97, 116],
        Scalar \<lparr>s_name = [108, 97, 116], s_value = PFloat 4609434218613702656,
                 s_data_type = 4, s_data_type_fmt = ''f''\<rparr>),
       ([100, 97, 116, 97],
        Array \<lparr>a_name = [100, 97, 116, 97],
                a_value = \<lparr>nd_dtype = DNum ''f'',
                            nd_bytes = [0, 0, 128, 63, 0, 0, 0, 64, 0, 0, 64, 64,
                                        0, 0, 128, 64]\<rparr>,
                a_data_type = 4, a_data_type_fmt = ''f'', a_dimension = 2,
                a_shape = [2, 2]\<rparr>)]
   \<and> write_dmap_stream \<lparr>dmap_records = [], dmap_bytearr = [], filename = []\<rparr>
      [[([115, 116, 105, 100],
        Scalar \<lparr>s_name = [115, 116, 105, 100], s_value = PInt 7, s_data_type = 2,
                 s_data_type_fmt = ''h''\<rparr>),
       ([108, 97, 116],
        Scalar \<lparr>s_name = [108, 97, 116], s_value = PFloat 4609434218613702656,
                 s_data_type = 4, s_data_type_fmt = ''f''\<rparr>),
       ([100, 97, 116, 97],
        Array \<lparr>a_name = [100, 97, 116, 97],
                a_value = \<lparr>nd_dtype = DNum ''f'',
                            nd_bytes = [0, 0, 128, 63, 0, 0, 0, 64, 0, 0, 64, 64,
                                        0, 0, 128, 64]\<rparr>,
                a_data_type = 4, a_data_type_fmt = ''f'', a_dimension = 2,
                a_shape = [2, 2]\<rparr>)]]
     = Inr (\<lparr>dmap_records = [[([115, 116, 105, 100],
        Scalar \<lparr>s_name = [115, 116, 105, 100], s_value = PInt 7, s_data_type = 2,
                 s_data_type_fmt = ''h''\<rparr>),
       ([108, 97, 116],
        Scalar \<lparr>s_name = [108, 97, 116], s_value = PFloat 4609434218613702656,
                 s_data_type = 4, s_data_type_fmt = ''f''\<rparr>),
       ([100, 97, 116, 97],
        Array \<lparr>a_name = [100, 97, 116, 97],
                a_value = \<lparr>nd_dtype = DNum ''f'',
                            nd_bytes = [0, 0, 128, 63, 0, 0, 0, 64, 0, 0, 64, 64,
                                        0, 0, 128, 64]\<rparr>,
                a_data_type = 4, a_data_type_fmt = ''f'', a_dimension = 2,
                a_shape = [2, 2]\<rparr>)]],
              dmap_bytearr = [1, 0, 1, 0, 67, 0, 0, 0, 2, 0, 0, 0, 1, 0, 0, 0, 115, 116, 105, 100,
      0, 2, 7, 0, 108, 97, 116, 0, 4, 0, 0, 192, 63, 100, 97, 116, 97, 0, 4,
      2, 0, 0, 0, 2, 0, 0, 0, 2, 0, 0, 0, 0, 0, 128, 63, 0, 0, 0, 64, 0, 0,
      64, 64, 0, 0, 128, 64],
              filename = []\<rparr>,
            [1, 0, 1, 0, 67, 0, 0, 0, 2, 0, 0, 0, 1, 0, 0, 0, 115, 116, 105, 100,
      0, 2, 7, 0, 108, 97, 116, 0, 4, 0, 0, 192, 63, 100, 97, 116, 97, 0, 4,
      2, 0, 0, 0, 2, 0, 0, 0, 2, 0, 0, 0, 0, 0, 128, 63, 0, 0, 0, 64, 0, 0,
      64, 64, 0, 0, 128, 64])
   \<and> dmap_read_stream [1, 0, 1, 0, 67, 0, 0, 0, 2, 0, 0, 0, 1, 0, 0, 0, 115, 116, 105, 100,
      0, 2, 7, 0, 108, 97, 116, 0, 4, 0, 0, 192, 63, 100, 97, 116, 97, 0, 4,
      2, 0, 0, 0, 2, 0, 0, 0, 2, 0, 0, 0, 0, 0, 128, 63, 0, 0, 0, 64, 0, 0,
      64, 64, 0, 0, 128, 64]
     = Inr [[([115, 116, 105, 100],
        Scalar \<lparr>s_name = [115, 116, 105, 100], s_value = PInt 7, s_data_type = 2,
                 s_data_type_fmt = ''h''\<rparr>),
       ([108, 97, 116],
        Scalar \<lparr>s_name = [108, 97, 116], s_value = PFloat 4609434218613702656,
                 s_data_type = 4, s_data_type_fmt = ''f''\<rparr>),
       ([100, 97, 116, 97],
        Array \<lparr>a_name = [100, 97, 116, 97],
                a_value = \<lparr>nd_dtype = DNum ''f'',
                            nd_bytes = [0, 0, 128, 63, 0, 0, 0, 64, 0, 0, 64, 64,
                                        0, 0, 128, 64]\<rparr>,
                a_data_type = 4, a_data_type_fmt = ''f'', a_dimension = 2,
                a_shape = [2, 2]\<rparr>)]]"
proof -
  let ?r = "[([115, 116, 105, 100],
        Scalar \<lparr>s_name = [115, 116, 105, 100], s_value = PInt 7, s_data_type = 2,
                 s_data_type_fmt = ''h''\<rparr>),
       ([108, 97, 116],
        Scalar \<lparr>s_name = [108, 97, 116], s_value = PFloat 4609434218613702656,
                 s_data_type = 4, s_data_type_fmt = ''f''\<rparr>),
       ([100, 97, 116, 97],
        Array \<lparr>a_name = [100, 97, 116, 97],
                a_value = \<lparr>nd_dtype = DNum ''f'',
                            nd_bytes = [0, 0, 128, 63, 0, 0, 0, 64, 0, 0, 64, 64,
                                        0, 0, 128, 64]\<rparr>,
                a_data_type = 4, a_data_type_fmt = ''f'', a_dimension = 2,
                a_shape = [2, 2]\<rparr>)] :: dmap_record"
  let ?self = "\<lparr>dmap_records = [], dmap_bytearr = [], filename = []\<rparr>"
  let ?b = "[1, 0, 1, 0, 67, 0, 0, 0, 2, 0, 0, 0, 1, 0, 0, 0, 115, 116, 105, 100,
      0, 2, 7, 0, 108, 97, 116, 0, 4, 0, 0, 192, 63, 100, 97, 116, 97, 0, 4,
      2, 0, 0, 0, 2, 0, 0, 0, 2, 0, 0, 0, 0, 0, 128, 63, 0, 0, 0, 64, 0, 0,
      64, 64, 0, 0, 128, 64] :: byte list"
  have v: "valid_record ?r" by code_simp
  have s: "list_all symmetric_shape ?r" by simp
  have w: "write_dmap_stream ?self [?r]
             = Inr (\<lparr>dmap_records = [?r], dmap_bytearr = ?b, filename = []\<rparr>, ?b)"
    by code_simp
  have h1: "[?r] \<noteq> []" by simp
  have h2: "\<forall>r \<in> set [?r]. valid_record r \<and> list_all symmetric_shape r"
    using v s by simp
  from dmap_round_trip [OF h1 h2, of ?self _ ?b, THEN conjunct1] w
  have "dmap_read_stream ?b = Inr [?r]" by simp
  with v w show ?thesis by simp
qed

text \<open>
  The claim as it was stated covers every record the writer accepts. A record with a
  scalar and no array is written in raw mode, and the reader refuses its bytes with
  \<open>ZeroByteError\<close>, the number of arrays being 0.
\<close>

theorem dmap_round_trip_counterexample:
  "write_dmap_stream \<lparr>dmap_records = [], dmap_bytearr = [], filename = []\<rparr>
      [[([115, 116, 105, 100],
         Scalar \<lparr>s_name = [115, 116, 105, 100], s_value = PInt 7, s_data_type = 2,
                  s_data_type_fmt = ''h''\<rparr>)]]
     = Inr (\<lparr>dmap_records =
               [[([115, 116, 105, 100],
                  Scalar \<lparr>s_name = [115, 116, 105, 100], s_value = PInt 7, s_data_type = 2,
                           s_data_type_fmt = ''h''\<rparr>)]],
              dmap_bytearr =
                [1, 0, 1, 0, 24, 0, 0, 0, 1, 0, 0, 0, 0, 0, 0, 0,
                 115, 116, 105, 100, 0, 2, 7, 0],
              filename = []\<rparr>,
            [1, 0, 1, 0, 24, 0, 0, 0, 1, 0, 0, 0, 0, 0, 0, 0,
             115, 116, 105, 100, 0, 2, 7, 0])
   \<and> dmap_read_stream
        [1, 0, 1, 0, 24, 0, 0, 0, 1, 0, 0, 0, 0, 0, 0, 0,
         115, 116, 105, 100, 0, 2, 7, 0]
     = Inl ZeroByteError"
  by code_simp

subsection \<open>Truncated streams\<close>

lemma read_int_short:
  "int (length buf) < c + 4 \<Longrightarrow> read_int buf c = Inl CursorError"
  by (simp add: read_int_def read_data_def Let_def)

lemma read_record_truncated:
  assumes enc: "dmap_record_to_bytes [] r = Inr b" and m: "0 < m" "m < length b"
  shows "read_record (pre @ take m b) (int (length pre)) = Inl CursorError
         \<or> read_record (pre @ take m b) (int (length pre)) = Inl MismatchByteError"
proof (cases "m < 8")
  case True
  then have "int (length (pre @ take m b)) < int (length pre) + 4 + 4"
    using m by simp
  then have "read_int (pre @ take m b) (int (length pre) + 4) = Inl CursorError"
    by (rule read_int_short)
  then show ?thesis by (simp add: read_record_def Let_def)
next
  case False
  let ?bsz = "block_size_of r"
  from dmap_record_to_bytes_eq [OF enc]
  have b: "b = le_bytes 4 65537 @ le_bytes 4 ?bsz @ le_bytes 4 (int (length (filter is_scalar r)))
                 @ le_bytes 4 (int (length (filter is_array r))) @ concat (map item_bytes r)"
    and rng: "?bsz < 2147483648"
    by simp_all
  have lb: "int (length b) = ?bsz" by (rule length_record_bytes [OF enc])
  have v: "le_signed (le_bytes 4 ?bsz) = ?bsz"
    using rng lb by (intro le_signed_le_bytes_4) auto
  have t: "take 4 (drop 4 (take m b)) = le_bytes 4 ?bsz"
    using False by (subst b) (simp add: drop_take)
  have "read_int (pre @ take m b @ []) (int (length pre) + int 4)
          = Inr (le_signed (take 4 (drop 4 (take m b))), int (length pre) + int 4 + 4)"
    using False m by (intro read_int_in_block) simp
  then have rd: "read_int (pre @ take m b) (int (length pre) + 4) = Inr (?bsz, int (length pre) + 8)"
    using t v by simp
  have "?bsz > int (length (pre @ take m b)) - (int (length pre) + 8) + 2 * 4"
    using m lb by simp
  then have "read_record (pre @ take m b) (int (length pre)) = Inl MismatchByteError"
    using rd by (simp add: read_record_def Let_def bytes_check_def del: length_append)
  then show ?thesis ..
qed

lemma read_stream_of_records:
  assumes "rs \<noteq> []"
    and "\<forall>r \<in> set rs. valid_record r \<and> dmap_record_to_bytes [] r = Inr (record_bytes r)"
  shows "dmap_read_stream (concat (map record_bytes rs)) = Inr (map (map reversed_shape) rs)"
proof -
  let ?buf = "concat (map record_bytes rs)"
  from assms(1) obtain r rs' where rs: "rs = r # rs'" by (cases rs) auto
  with assms(2) have "dmap_record_to_bytes [] r = Inr (record_bytes r)" by simp
  then have "16 \<le> length (record_bytes r)" by (rule record_bytes_length)
  with rs have ne: "length ?buf \<noteq> 0" by auto
  have "read_records ([] @ ?buf @ []) (int (length ([] :: byte list))) []
          = read_records ([] @ ?buf @ [])
              (int (length ([] :: byte list)) + int (length ?buf))
              ([] @ map (map reversed_shape) rs)"
    using assms(2) by (intro read_records_skip) simp
  then have "read_records ?buf 0 [] = read_records ?buf (int (length ?buf)) (map (map reversed_shape) rs)"
    by simp
  then have "read_records ?buf 0 [] = Inr (map (map reversed_shape) rs, int (length ?buf))"
    by (simp only: read_records_end)
  with ne show ?thesis
    by (simp add: dmap_read_stream_def DmapRead_init_def)
qed

lemma read_stream_truncated:
  assumes ok: "\<forall>r \<in> set rs. valid_record r \<and> dmap_record_to_bytes [] r = Inr (record_bytes r)"
    and k: "k < length rs"
    and n: "length (concat (map record_bytes (take k rs))) < n"
           "n < length (concat (map record_bytes (take (Suc k) rs)))"
  shows "dmap_read_stream (take n (concat (map record_bytes rs))) = Inl MismatchByteError
         \<or> dmap_read_stream (take n (concat (map record_bytes rs))) = Inl CursorError"
proof -
  let ?rs1 = "take k rs" and ?r = "rs ! k" and ?rs2 = "drop (Suc k) rs"
  let ?B1 = "concat (map record_bytes ?rs1)" and ?b = "record_bytes ?r"
  let ?B2 = "concat (map record_bytes ?rs2)"
  have rs: "rs = ?rs1 @ ?r # ?rs2" using k by (simp add: id_take_nth_drop)
  have tk: "take (Suc k) rs = ?rs1 @ [?r]" using k by (simp add: take_Suc_conv_app_nth)
  have buf: "concat (map record_bytes rs) = ?B1 @ ?b @ ?B2"
    by (subst rs) simp
  define m where "m = n - length ?B1"
  from n tk have m: "0 < m" "m < length ?b" "n = length ?B1 + m"
    by (simp_all add: m_def)
  have tn: "take n (concat (map record_bytes rs)) = ?B1 @ take m ?b"
    using m by (simp add: buf)
  let ?buf = "?B1 @ take m ?b"
  have enc: "dmap_record_to_bytes [] ?r = Inr ?b"
    using ok k by simp
  have ok1: "\<forall>r \<in> set ?rs1. valid_record r \<and> dmap_record_to_bytes [] r = Inr (record_bytes r)"
    using ok by (auto dest: in_set_takeD)
  have "read_records ([] @ ?B1 @ take m ?b) (int (length ([] :: byte list))) []
          = read_records ([] @ ?B1 @ take m ?b)
              (int (length ([] :: byte list)) + int (length ?B1))
              ([] @ map (map reversed_shape) ?rs1)"
    using ok1 by (rule read_records_skip)
  then have skip: "read_records ?buf 0 []
          = read_records ?buf (int (length ?B1)) (map (map reversed_shape) ?rs1)"
    by simp
  have lt: "int (length ?B1) < int (length ?buf)" using m by simp
  from read_record_truncated [OF enc m(1,2), of ?B1]
  have "read_records ?buf (int (length ?B1)) (map (map reversed_shape) ?rs1) = Inl CursorError
        \<or> read_records ?buf (int (length ?B1)) (map (map reversed_shape) ?rs1) = Inl MismatchByteError"
    using lt by (subst (1 2) read_records.simps) (auto simp del: length_append)
  with skip have "read_records ?buf 0 [] = Inl CursorError \<or> read_records ?buf 0 [] = Inl MismatchByteError"
    by simp
  moreover have "length ?buf \<noteq> 0" using m by simp
  ultimately show ?thesis
    unfolding tn by (auto simp: dmap_read_stream_def DmapRead_init_def)
qed

lemma dmap_records_to_bytes_take:
  assumes "\<forall>r \<in> set rs. dmap_record_to_bytes [] r = Inr (record_bytes r)"
  shows "take (length (concat (map record_bytes (take k rs)))) (concat (map record_bytes rs))
           = concat (map record_bytes (take k rs))"
proof -
  have "concat (map record_bytes rs)
          = concat (map record_bytes (take k rs)) @ concat (map record_bytes (drop k rs))"
    by (metis append_take_drop_id concat_append map_append)
  then show ?thesis by simp
qed

text \<open>
  Claim C6, as amended. Take the bytes written for a list of valid records. Cut to
  nothing, they are refused with \<open>EmptyFileError\<close>. Cut at the end of the \<open>k\<close>-th
  record, they are read as the first \<open>k\<close> records, with no error: nothing in the file
  says how many records it holds. Cut anywhere else, that is inside a record, reading
  them fails with \<open>MismatchByteError\<close> or \<open>CursorError\<close> and returns no record.
  (What is read back has the shapes reversed, as in \<open>read_array_roundtrip\<close>.)
\<close>

theorem truncated_stream:
  assumes "\<forall>r \<in> set rs. valid_record r" and "dmap_records_to_bytes [] rs = Inr buf"
  shows "dmap_read_stream (take 0 buf) = Inl EmptyFileError
       \<and> (\<forall>k. 0 < k \<and> k \<le> length rs \<longrightarrow>
             dmap_read_stream (take (length (concat (map record_bytes (take k rs)))) buf)
               = Inr (map (map reversed_shape) (take k rs)))
       \<and> (\<forall>k n. k < length rs
              \<and> length (concat (map record_bytes (take k rs))) < n
              \<and> n < length (concat (map record_bytes (take (Suc k) rs)))
            \<longrightarrow> dmap_read_stream (take n buf) = Inl MismatchByteError
                \<or> dmap_read_stream (take n buf) = Inl CursorError)"
proof -
  from dmap_records_to_bytes_eq [OF assms(2)]
  have buf: "buf = concat (map record_bytes rs)"
    and enc: "\<forall>r \<in> set rs. dmap_record_to_bytes [] r = Inr (record_bytes r)"
    by simp_all
  have ok: "\<forall>r \<in> set rs. valid_record r \<and> dmap_record_to_bytes [] r = Inr (record_bytes r)"
    using assms(1) enc by simp
  have a: "dmap_read_stream (take 0 buf) = Inl EmptyFileError"
    by (simp add: dmap_read_stream_def DmapRead_init_def)
  have b: "dmap_read_stream (take (length (concat (map record_bytes (take k rs)))) buf)
               = Inr (map (map reversed_shape) (take k rs))"
    if "0 < k \<and> k \<le> length rs" for k
  proof -
    have "take k rs \<noteq> []" using that by auto
    moreover have "\<forall>r \<in> set (take k rs). valid_record r
                     \<and> dmap_record_to_bytes [] r = Inr (record_bytes r)"
      using ok by (auto dest: in_set_takeD)
    ultimately have "dmap_read_stream (concat (map record_bytes (take k rs)))
                       = Inr (map (map reversed_shape) (take k rs))"
      by (rule read_stream_of_records)
    then show ?thesis
      unfolding buf by (simp only: dmap_records_to_bytes_take [OF enc])
  qed
  have c: "dmap_read_stream (take n buf) = Inl MismatchByteError
                \<or> dmap_read_stream (take n buf) = Inl CursorError"
    if "k < length rs
              \<and> length (concat (map record_bytes (take k rs))) < n
              \<and> n < length (concat (map record_bytes (take (Suc k) rs)))" for k n
    unfolding buf using that by (intro read_stream_truncated [OF ok, of k]) simp_all
  from a b c show ?thesis by blast
qed


text \<open>The witness: the record of 58 bytes, cut by its last byte.\<close>

theorem truncated_stream_witness:
  "valid_record
      [([115, 116, 105, 100],
        Scalar \<lparr>s_name = [115, 116, 105, 100], s_value = PInt 7, s_data_type = 2,
                 s_data_type_fmt = ''h''\<rparr>),
       ([100, 97, 116, 97],
        Array \<lparr>a_name = [100, 97, 116, 97],
                a_value = \<lparr>nd_dtype = DNum ''f'',
                            nd_bytes = [0, 0, 128, 63, 0, 0, 0, 64, 0, 0, 64, 64,
                                        0, 0, 128, 64]\<rparr>,
                a_data_type = 4, a_data_type_fmt = ''f'', a_dimension = 2,
                a_shape = [2, 2]\<rparr>)]
   \<and> dmap_records_to_bytes []
      [[([115, 116, 105, 100],
        Scalar \<lparr>s_name = [115, 116, 105, 100], s_value = PInt 7, s_data_type = 2,
                 s_data_type_fmt = ''h''\<rparr>),
       ([100, 97, 116, 97],
        Array \<lparr>a_name = [100, 97, 116, 97],
                a_value = \<lparr>nd_dtype = DNum ''f'',
                            nd_bytes = [0, 0, 128, 63, 0, 0, 0, 64, 0, 0, 64, 64,
                                        0, 0, 128, 64]\<rparr>,
                a_data_type = 4, a_data_type_fmt = ''f'', a_dimension = 2,
                a_shape = [2, 2]\<rparr>)]]
     = Inr [1, 0, 1, 0, 58, 0, 0, 0, 1, 0, 0, 0, 1, 0, 0, 0, 115, 116, 105, 100,
      0, 2, 7, 0, 100, 97, 116, 97, 0, 4, 2, 0, 0, 0, 2, 0, 0, 0, 2, 0, 0,
      0, 0, 0, 128, 63, 0, 0, 0, 64, 0, 0, 64, 64, 0, 0, 128, 64]
   \<and> dmap_read_stream (take 57 [1, 0, 1, 0, 58, 0, 0, 0, 1, 0, 0, 0, 1, 0, 0, 0, 115, 116, 105, 100,
      0, 2, 7, 0, 100, 97, 116, 97, 0, 4, 2, 0, 0, 0, 2, 0, 0, 0, 2, 0, 0,
      0, 0, 0, 128, 63, 0, 0, 0, 64, 0, 0, 64, 64, 0, 0, 128, 64])
     = Inl MismatchByteError"
proof -
  let ?r = "[([115, 116, 105, 100],
        Scalar \<lparr>s_name = [115, 116, 105, 100], s_value = PInt 7, s_data_type = 2,
                 s_data_type_fmt = ''h''\<rparr>),
       ([100, 97, 116, 97],
        Array \<lparr>a_name = [100, 97, 116, 97],
                a_value = \<lparr>nd_dtype = DNum ''f'',
                            nd_bytes = [0, 0, 128, 63, 0, 0, 0, 64, 0, 0, 64, 64,
                                        0, 0, 128, 64]\<rparr>,
                a_data_type = 4, a_data_type_fmt = ''f'', a_dimension = 2,
                a_shape = [2, 2]\<rparr>)] :: dmap_record"
  let ?b = "[1, 0, 1, 0, 58, 0, 0, 0, 1, 0, 0, 0, 1, 0, 0, 0, 115, 116, 105, 100,
      0, 2, 7, 0, 100, 97, 116, 97, 0, 4, 2, 0, 0, 0, 2, 0, 0, 0, 2, 0, 0,
      0, 0, 0, 128, 63, 0, 0, 0, 64, 0, 0, 64, 64, 0, 0, 128, 64] :: byte list"
  have v: "\<forall>r \<in> set [?r]. valid_record r" by code_simp
  have w: "dmap_records_to_bytes [] [?r] = Inr ?b" by code_simp
  have b: "record_bytes ?r = ?b" by code_simp
  have n: "0 < length [?r]
              \<and> length (concat (map record_bytes (take 0 [?r]))) < 57
              \<and> 57 < length (concat (map record_bytes (take (Suc 0) [?r])))"
    by (simp add: b)
  have ne: "dmap_read_stream (take 57 ?b) \<noteq> Inl CursorError" by code_simp
  from truncated_stream [OF v w, THEN conjunct2, THEN conjunct2, rule_format, OF n] ne
  have "dmap_read_stream (take 57 ?b) = Inl MismatchByteError" by blast
  with v w show ?thesis by simp
qed

text \<open>
  The claim as it was stated has every cut fail. A file of two records of 58 bytes, cut
  by its last 58 bytes, is read as a file of one record.
\<close>

theorem truncated_stream_counterexample:
  "dmap_read_stream [1, 0, 1, 0, 58, 0, 0, 0, 1, 0, 0, 0, 1, 0, 0, 0, 115, 116, 105, 100,
      0, 2, 7, 0, 100, 97, 116, 97, 0, 4, 2, 0, 0, 0, 2, 0, 0, 0, 2, 0, 0,
      0, 0, 0, 128, 63, 0, 0, 0, 64, 0, 0, 64, 64, 0, 0, 128, 64,
      1, 0, 1, 0, 58, 0, 0, 0, 1, 0, 0, 0, 1, 0, 0, 0, 115, 116, 105, 100,
      0, 2, 7, 0, 100, 97, 116, 97, 0, 4, 2, 0, 0, 0, 2, 0, 0, 0, 2, 0, 0,
      0, 0, 0, 128, 63, 0, 0, 0, 64, 0, 0, 64, 64, 0, 0, 128, 64]
     = Inr [[([115, 116, 105, 100],
        Scalar \<lparr>s_name = [115, 116, 105, 100], s_value = PInt 7, s_data_type = 2,
                 s_data_type_fmt = ''h''\<rparr>),
       ([100, 97, 116, 97],
        Array \<lparr>a_name = [100, 97, 116, 97],
                a_value = \<lparr>nd_dtype = DNum ''f'',
                            nd_bytes = [0, 0, 128, 63, 0, 0, 0, 64, 0, 0, 64, 64,
                                        0, 0, 128, 64]\<rparr>,
                a_data_type = 4, a_data_type_fmt = ''f'', a_dimension = 2,
                a_shape = [2, 2]\<rparr>)],
            [([115, 116, 105, 100],
        Scalar \<lparr>s_name = [115, 116, 105, 100], s_value = PInt 7, s_data_type = 2,
                 s_data_type_fmt = ''h''\<rparr>),
       ([100, 97, 116, 97],
        Array \<lparr>a_name = [100, 97, 116, 97],
                a_value = \<lparr>nd_dtype = DNum ''f'',
                            nd_bytes = [0, 0, 128, 63, 0, 0, 0, 64, 0, 0, 64, 64,
                                        0, 0, 128, 64]\<rparr>,
                a_data_type = 4, a_data_type_fmt = ''f'', a_dimension = 2,
                a_shape = [2, 2]\<rparr>)]]
   \<and> dmap_read_stream (take (116 - 58) [1, 0, 1, 0, 58, 0, 0, 0, 1, 0, 0, 0, 1, 0, 0, 0, 115, 116, 105, 100,
      0, 2, 7, 0, 100, 97, 116, 97, 0, 4, 2, 0, 0, 0, 2, 0, 0, 0, 2, 0, 0,
      0, 0, 0, 128, 63, 0, 0, 0, 64, 0, 0, 64, 64, 0, 0, 128, 64,
      1, 0, 1, 0, 58, 0, 0, 0, 1, 0, 0, 0, 1, 0, 0, 0, 115, 116, 105, 100,
      0, 2, 7, 0, 100, 97, 116, 97, 0, 4, 2, 0, 0, 0, 2, 0, 0, 0, 2, 0, 0,
      0, 0, 0, 128, 63, 0, 0, 0, 64, 0, 0, 64, 64, 0, 0, 128, 64])
     = Inr [[([115, 116, 105, 100],
        Scalar \<lparr>s_name = [115, 116, 105, 100], s_value = PInt 7, s_data_type = 2,
                 s_data_type_fmt = ''h''\<rparr>),
       ([100, 97, 116, 97],
        Array \<lparr>a_name = [100, 97, 116, 97],
                a_value = \<lparr>nd_dtype = DNum ''f'',
                            nd_bytes = [0, 0, 128, 63, 0, 0, 0, 64, 0, 0, 64, 64,
                                        0, 0, 128, 64]\<rparr>,
                a_data_type = 4, a_data_type_fmt = ''f'', a_dimension = 2,
                a_shape = [2, 2]\<rparr>)]]"
  by code_simp

end
